theory Spec2Isabelle
  imports Complex_Main
begin

section \<open>Ambient-noise cross-correlation: an embedding of compute\_cc.py\<close>

text \<open>
  The development follows the functions of \<^verbatim>\<open>src/compute_cc.py\<close>: \<^verbatim>\<open>process_raw\<close>,
  \<^verbatim>\<open>nearest_step\<close>, the windowing part of \<^verbatim>\<open>main\<close>, \<^verbatim>\<open>whiten\<close> and \<^verbatim>\<open>correlate\<close>.
  Python exceptions are values of the type \<open>error\<close>; a function that can raise returns
  \<open>error + 'a\<close>. Floating-point numbers are modelled by the reals and complex numbers, so
  every statement below is about the exact arithmetic the code approximates; the claims
  settled here are about shapes, indices, branches and symmetric assignments, which
  rounding does not change. Time stamps are seconds since the epoch.
\<close>

subsection \<open>Exceptions and the Python list operations the code relies on\<close>

datatype error = ValueError string | IndexError | TypeError | AxisError | ZeroDivisionError

text \<open>The two \<^verbatim>\<open>ValueError\<close>s of \<^verbatim>\<open>process_raw\<close> and \<^verbatim>\<open>main\<close>, under the names the
  specification gives them.\<close>

definition TooManyTraces :: error where
  "TooManyTraces = ValueError ''Too many traces in Stream''"

definition EmptyStream :: error where
  "EmptyStream = ValueError ''No traces in Stream''"

text \<open>\<^verbatim>\<open>xs[i]\<close>, \<^verbatim>\<open>xs[i] = v\<close> and \<^verbatim>\<open>xs.remove(x)\<close>: a negative index counts from the end, an
  index out of range raises, and \<^verbatim>\<open>remove\<close> deletes the first element equal to \<open>x\<close>.\<close>

definition py_position :: "nat \<Rightarrow> int \<Rightarrow> nat option" where
  "py_position n i =
     (if - int n \<le> i \<and> i < 0 then Some (nat (int n + i))
      else if 0 \<le> i \<and> i < int n then Some (nat i)
      else None)"

definition py_index :: "'a list \<Rightarrow> int \<Rightarrow> error + 'a" where
  "py_index xs i =
     (case py_position (length xs) i of None \<Rightarrow> Inl IndexError | Some j \<Rightarrow> Inr (xs ! j))"

definition py_setitem :: "'a list \<Rightarrow> int \<Rightarrow> 'a \<Rightarrow> error + 'a list" where
  "py_setitem xs i v =
     (case py_position (length xs) i of None \<Rightarrow> Inl IndexError | Some j \<Rightarrow> Inr (xs[j := v]))"

definition py_remove :: "'a \<Rightarrow> 'a list \<Rightarrow> error + 'a list" where
  "py_remove x xs =
     (if x \<in> set xs then Inr (remove1 x xs)
      else Inl (ValueError ''list.remove(x): x not in list''))"

text \<open>\<^verbatim>\<open>range(0, stop, step)\<close>: \<open>\<lceil>stop / step\<rceil>\<close> elements when that is positive, none
  otherwise, and an exception for a zero step.\<close>

definition py_range0 :: "int \<Rightarrow> int \<Rightarrow> error + int list" where
  "py_range0 stop step =
     (if step = 0 then Inl (ValueError ''range() arg 3 must not be zero'')
      else Inr (map (\<lambda>k. int k * step) [0..<nat (- ((- stop) div step))]))"

text \<open>Slices clip their bounds to the list, as Python does.\<close>

definition py_bound :: "nat \<Rightarrow> int \<Rightarrow> nat" where
  "py_bound n i = (if i < 0 then nat (int n + i) else min n (nat i))"

definition py_slice :: "'a list \<Rightarrow> int \<Rightarrow> int \<Rightarrow> 'a list" where
  "py_slice xs lo hi =
     (let a = py_bound (length xs) lo; b = py_bound (length xs) hi in take (b - a) (drop a xs))"

definition py_slice_from :: "'a list \<Rightarrow> int \<Rightarrow> 'a list" where
  "py_slice_from xs lo = drop (py_bound (length xs) lo) xs"

definition py_slice_to :: "'a list \<Rightarrow> int \<Rightarrow> 'a list" where
  "py_slice_to xs hi = take (py_bound (length xs) hi) xs"

fun sequence :: "(error + 'a) list \<Rightarrow> error + 'a list" where
  "sequence [] = Inr []"
| "sequence (r # rs) =
     (case r of
        Inl e \<Rightarrow> Inl e
      | Inr x \<Rightarrow> (case sequence rs of Inl e \<Rightarrow> Inl e | Inr xs \<Rightarrow> Inr (x # xs)))"

subsection \<open>Traces and streams\<close>

text \<open>An obspy trace: its id, start time, sampling rate and samples. Two traces are equal
  when header and samples agree, which is how \<^verbatim>\<open>Stream.remove\<close> finds the trace to delete.\<close>

record trace =
  trace_id :: string
  starttime :: real
  sampling_rate :: real
  data :: "real list"

type_synonym stream = "trace list"

text \<open>One entry of \<^verbatim>\<open>noise.getGaps\<close>: the code reads \<^verbatim>\<open>gap[0]\<close> and \<^verbatim>\<open>gap[1]\<close> (the indices of
  the two traces around the gap) and \<^verbatim>\<open>gap[-1]\<close> (the number of missing samples).\<close>

record gap =
  first_index :: int
  second_index :: int
  nsamples :: int

text \<open>
  The helpers \<^verbatim>\<open>process_raw\<close> calls live in the \<^verbatim>\<open>noise\<close> module and in obspy, neither of
  which is part of \<^verbatim>\<open>compute_cc.py\<close>. They are parameters of the model:
  \<open>trace_add\<close> is \<^verbatim>\<open>Trace.__add__(..., method=0, fill_value="interpolate")\<close> (\<open>None\<close> when obspy
  refuses the pair with a \<^verbatim>\<open>TypeError\<close>), \<open>stream_merge\<close> is
  \<^verbatim>\<open>Stream.merge(method=0, fill_value=0)\<close>.
\<close>

record noise_lib =
  check_sample :: "stream \<Rightarrow> stream"
  downsample :: "stream \<Rightarrow> real \<Rightarrow> stream"
  remove_small_traces :: "stream \<Rightarrow> stream"
  getGaps :: "stream \<Rightarrow> gap list"
  check_and_phase_shift :: "trace \<Rightarrow> trace"
  trace_add :: "trace \<Rightarrow> trace \<Rightarrow> trace option"
  stream_merge :: "stream \<Rightarrow> stream"

subsection \<open>The stream conditioner: process\_raw\<close>

text \<open>\<^verbatim>\<open>tr.data.max()\<close>: numpy raises on an empty array.\<close>

fun np_max :: "real list \<Rightarrow> error + real" where
  "np_max [] = Inl (ValueError ''zero-size array to reduction operation maximum which has no identity'')"
| "np_max (x # xs) = Inr (fold max xs x)"

text \<open>
  \<^verbatim>\<open>for tr in st: if tr.data.max() == 0: st.remove(tr)\<close>. An obspy stream iterates over a copy
  of its trace list, so the first argument is the list being walked and the second the
  stream being changed.
\<close>

fun drop_zero_traces :: "trace list \<Rightarrow> stream \<Rightarrow> error + stream" where
  "drop_zero_traces [] st = Inr st"
| "drop_zero_traces (tr # trs) st =
     (case np_max (data tr) of
        Inl e \<Rightarrow> Inl e
      | Inr m \<Rightarrow>
          if m = 0 then
            (case py_remove tr st of
               Inl e \<Rightarrow> Inl e
             | Inr st' \<Rightarrow> drop_zero_traces trs st')
          else drop_zero_traces trs st)"

definition max_gap :: int where
  "max_gap = 10"

text \<open>
  The \<^verbatim>\<open>for gap in gaps\<close> loop of one pass: the first gap of at most \<open>max_gap\<close> samples is
  repaired (the two traces are added, the second is removed) and the loop breaks;
  every longer gap met before counts in \<open>too_long\<close>.
\<close>

fun gap_pass :: "noise_lib \<Rightarrow> gap list \<Rightarrow> stream \<Rightarrow> nat \<Rightarrow> error + (stream \<times> nat)" where
  "gap_pass L [] st too_long = Inr (st, too_long)"
| "gap_pass L (g # gs) st too_long =
     (if nsamples g \<le> max_gap then
        (case py_index st (first_index g) of
           Inl e \<Rightarrow> Inl e
         | Inr a \<Rightarrow>
        (case py_index st (second_index g) of
           Inl e \<Rightarrow> Inl e
         | Inr b \<Rightarrow>
        (case trace_add L a b of
           None \<Rightarrow> Inl TypeError
         | Some m \<Rightarrow>
        (case py_setitem st (first_index g) m of
           Inl e \<Rightarrow> Inl e
         | Inr st1 \<Rightarrow>
        (case py_index st1 (second_index g) of
           Inl e \<Rightarrow> Inl e
         | Inr c \<Rightarrow>
        (case py_remove c st1 of
           Inl e \<Rightarrow> Inl e
         | Inr st2 \<Rightarrow> Inr (st2, too_long)))))))
      else gap_pass L gs st (too_long + 1))"

text \<open>
  \<^verbatim>\<open>while noise.getGaps(st) and not only_too_long\<close>. The loop is a partial function: \<open>None\<close>
  would be a run that never leaves it.
\<close>

partial_function (option) gap_loop :: "noise_lib \<Rightarrow> stream \<Rightarrow> bool \<Rightarrow> (error + stream) option" where
  "gap_loop L st only_too_long =
     (if getGaps L st \<noteq> [] \<and> \<not> only_too_long then
        (case gap_pass L (getGaps L st) st 0 of
           Inl e \<Rightarrow> Some (Inl e)
         | Inr (st', too_long) \<Rightarrow>
             gap_loop L st' (only_too_long \<or> too_long = length (getGaps L st)))
      else Some (Inr st))"

definition process_raw :: "noise_lib \<Rightarrow> stream \<Rightarrow> real \<Rightarrow> (error + stream) option" where
  "process_raw L st downsamp_freq =
     (if length st > 100 then Some (Inl TooManyTraces)
      else
        (case drop_zero_traces (check_sample L st) (check_sample L st) of
           Inl e \<Rightarrow> Some (Inl e)
         | Inr st1 \<Rightarrow>
             if length st1 = 0 then Some (Inl EmptyStream)
             else
               (let st2 = remove_small_traces L (downsample L st1 downsamp_freq) in
                if length st2 = 0 then Some (Inl EmptyStream)
                else
                  (case (if length (getGaps L st2) > 0 then gap_loop L st2 False
                         else Some (Inr st2)) of
                     None \<Rightarrow> None
                   | Some (Inl e) \<Rightarrow> Some (Inl e)
                   | Some (Inr st3) \<Rightarrow>
                       Some (Inr (map (check_and_phase_shift L) (stream_merge L st3)))))))"

text \<open>The largest absolute sample value of a trace, the quantity the specification's
  zero-trace rule is worded with (the code tests \<^verbatim>\<open>data.max()\<close> instead).\<close>

definition max_abs_amplitude :: "real list \<Rightarrow> real" where
  "max_abs_amplitude xs = fold max (map abs xs) 0"

subsection \<open>Time alignment: nearest\_step\<close>

text \<open>\<^verbatim>\<open>np.argmin\<close>: the first index of a least element; it raises on an empty sequence.\<close>

fun argmin_from :: "real list \<Rightarrow> nat \<Rightarrow> nat \<Rightarrow> real \<Rightarrow> nat" where
  "argmin_from [] i best v = best"
| "argmin_from (x # xs) i best v =
     (if x < v then argmin_from xs (i + 1) i x else argmin_from xs (i + 1) best v)"

fun np_argmin :: "real list \<Rightarrow> error + nat" where
  "np_argmin [] = Inl (ValueError ''attempt to get argmin of an empty sequence'')"
| "np_argmin (x # xs) = Inr (argmin_from xs 1 0 x)"

text \<open>\<^verbatim>\<open>UTCDateTime(t.year, t.month, t.day)\<close>: midnight of the day of \<open>t\<close>.\<close>

definition day_start :: "real \<Rightarrow> real" where
  "day_start t = 86400 * of_int \<lfloor>t / 86400\<rfloor>"

definition nearest_step :: "real \<Rightarrow> real \<Rightarrow> int \<Rightarrow> error + (real \<times> real)" where
  "nearest_step t1 t2 step =
     (if t1 = t2 then Inr (t1, t2)
      else
        (case py_range0 (86400 + step) step of
           Inl e \<Rightarrow> Inl e
         | Inr ss \<Rightarrow>
             (let start1 = day_start t1;
                  start2 = day_start t2;
                  t1s = map (\<lambda>s. start1 + of_int s) ss;
                  t2s = map (\<lambda>s. start2 + of_int s) ss;
                  t1diff = map (\<lambda>t. t - t1) t1s;
                  t2diff = map (\<lambda>t. t - t2) t2s
              in
                (case np_argmin (map abs t1diff) of
                   Inl e \<Rightarrow> Inl e
                 | Inr ind1 \<Rightarrow>
                (case np_argmin (map abs t2diff) of
                   Inl e \<Rightarrow> Inl e
                 | Inr ind2 \<Rightarrow> Inr (t1s ! ind1, t2s ! ind2))))))"

subsection \<open>The windower: lines 82--89 and 103--125 of main\<close>

text \<open>\<^verbatim>\<open>np.arange(0, stop, step)\<close> on floats: \<open>\<lceil>stop / step\<rceil>\<close> multiples of the step.\<close>

definition np_arange0 :: "real \<Rightarrow> real \<Rightarrow> error + real list" where
  "np_arange0 stop step =
     (if step = 0 then Inl ZeroDivisionError
      else Inr (map (\<lambda>k. real k * step) [0..<nat \<lceil>stop / step\<rceil>]))"

text \<open>The window bounds \<^verbatim>\<open>t_start\<close>, \<^verbatim>\<open>t_end\<close> (lines 82--89).\<close>

definition main_window_times :: "real \<Rightarrow> real \<Rightarrow> real \<Rightarrow> int \<Rightarrow> error + (real list \<times> real list)" where
  "main_window_times t1 t2 cc_len step =
     (case np_arange0 (t2 - t1 - cc_len + of_int step) (of_int step) of
        Inl e \<Rightarrow> Inl e
      | Inr t_len \<Rightarrow>
          (let t_start = map (\<lambda>t. t1 + t) t_len;
               t_end = map (\<lambda>t. t1 + t + cc_len) t_len;
               t_ind = filter (\<lambda>i. t_end ! i \<le> t2) [0..<length t_end]
           in Inr (map (\<lambda>i. t_start ! i) t_ind, map (\<lambda>i. t_end ! i) t_ind)))"

text \<open>Slicing both traces into windows (lines 103--113); \<open>slide\<close> is obspy's
  \<^verbatim>\<open>Trace.slide(window_length, step)\<close>, a parameter.\<close>

definition main_window_waveforms ::
    "(trace \<Rightarrow> real \<Rightarrow> int \<Rightarrow> trace list) \<Rightarrow> trace \<Rightarrow> trace \<Rightarrow> real \<Rightarrow> int \<Rightarrow>
     error + (stream \<times> stream)" where
  "main_window_waveforms slide source receiver cc_len step =
     (let source_slice = slide source cc_len step;
          receiver_slice = slide receiver cc_len step
      in if length source_slice = 0 \<or> length receiver_slice = 0 then Inl EmptyStream
         else Inr (source_slice, receiver_slice))"

text \<open>Lines 116--121: the indices whose start times differ, collected over
  \<^verbatim>\<open>range(len(source_slice))\<close>.\<close>

fun find_mismatched :: "stream \<Rightarrow> stream \<Rightarrow> nat list \<Rightarrow> nat list \<Rightarrow> error + nat list" where
  "find_mismatched source_slice receiver_slice [] to_remove = Inr to_remove"
| "find_mismatched source_slice receiver_slice (ii # rest) to_remove =
     (case py_index source_slice (int ii) of
        Inl e \<Rightarrow> Inl e
      | Inr s \<Rightarrow>
     (case py_index receiver_slice (int ii) of
        Inl e \<Rightarrow> Inl e
      | Inr r \<Rightarrow>
          find_mismatched source_slice receiver_slice rest
            (if starttime s \<noteq> starttime r then to_remove @ [ii] else to_remove)))"

text \<open>Lines 123--125: \<^verbatim>\<open>remove(slice[ii])\<close> on both streams, for each index of the list.\<close>

fun remove_pairs :: "nat list \<Rightarrow> stream \<Rightarrow> stream \<Rightarrow> error + (stream \<times> stream)" where
  "remove_pairs [] source_slice receiver_slice = Inr (source_slice, receiver_slice)"
| "remove_pairs (ii # rest) source_slice receiver_slice =
     (case py_index source_slice (int ii) of
        Inl e \<Rightarrow> Inl e
      | Inr s \<Rightarrow>
     (case py_remove s source_slice of
        Inl e \<Rightarrow> Inl e
      | Inr source_slice' \<Rightarrow>
     (case py_index receiver_slice (int ii) of
        Inl e \<Rightarrow> Inl e
      | Inr r \<Rightarrow>
     (case py_remove r receiver_slice of
        Inl e \<Rightarrow> Inl e
      | Inr receiver_slice' \<Rightarrow> remove_pairs rest source_slice' receiver_slice'))))"

definition main_delete_mismatched :: "stream \<Rightarrow> stream \<Rightarrow> error + (stream \<times> stream)" where
  "main_delete_mismatched source_slice receiver_slice =
     (case find_mismatched source_slice receiver_slice [0..<length source_slice] [] of
        Inl e \<Rightarrow> Inl e
      | Inr to_remove \<Rightarrow>
          if length to_remove > 0 then remove_pairs (rev to_remove) source_slice receiver_slice
          else Inr (source_slice, receiver_slice))"

subsection \<open>Arrays of rank one and two\<close>

text \<open>
  A numpy array of rank one is a list. One of rank two is the number of its columns and
  the list of its rows, each of that length: the number stands beside the rows, so that
  an array without rows keeps its second dimension, as one of shape \<open>(0, n)\<close> does.
  \<open>shape_axis\<close> is \<^verbatim>\<open>x.shape[axis]\<close> for the axis the code picks from the rank: 0 for rank
  one, 1 for rank two.
\<close>

datatype 'a ndarray = Arr1 "'a list" | Arr2 nat "'a list list"

fun shape_axis :: "'a ndarray \<Rightarrow> nat" where
  "shape_axis (Arr1 xs) = length xs"
| "shape_axis (Arr2 c rows) = c"

fun shape :: "'a ndarray \<Rightarrow> nat list" where
  "shape (Arr1 xs) = [length xs]"
| "shape (Arr2 c rows) = [length rows, c]"

definition broadcast_error :: error where
  "broadcast_error = ValueError ''operands could not be broadcast together''"

text \<open>Elementwise operations broadcast: two axes fit when their lengths agree or one of
  them is 1; a rank-one operand is a single row against a matrix.\<close>

definition bc :: "('a \<Rightarrow> 'b \<Rightarrow> 'c) \<Rightarrow> 'a list \<Rightarrow> 'b list \<Rightarrow> error + 'c list" where
  "bc f xs ys =
     (if length xs = length ys then Inr (map2 f xs ys)
      else if length xs = 1 then Inr (map (f (hd xs)) ys)
      else if length ys = 1 then Inr (map (\<lambda>x. f x (hd ys)) xs)
      else Inl broadcast_error)"

definition bc_rows :: "('a \<Rightarrow> 'b \<Rightarrow> 'c) \<Rightarrow> 'a list list \<Rightarrow> 'b list list \<Rightarrow> error + 'c list list" where
  "bc_rows f A B =
     (if length A = length B then sequence (map2 (bc f) A B)
      else if length A = 1 then sequence (map (bc f (hd A)) B)
      else if length B = 1 then sequence (map (\<lambda>a. bc f a (hd B)) A)
      else Inl broadcast_error)"

text \<open>The length of an axis of the result, from the lengths of that axis in the operands.\<close>

definition bc_dim :: "nat \<Rightarrow> nat \<Rightarrow> error + nat" where
  "bc_dim m n =
     (if m = n then Inr m
      else if m = 1 then Inr n
      else if n = 1 then Inr m
      else Inl broadcast_error)"

definition bc_matrix ::
    "('a \<Rightarrow> 'b \<Rightarrow> 'c) \<Rightarrow> nat \<Rightarrow> 'a list list \<Rightarrow> nat \<Rightarrow> 'b list list \<Rightarrow> error + 'c ndarray" where
  "bc_matrix f c A d B =
     (case bc_dim c d of
        Inl e \<Rightarrow> Inl e
      | Inr w \<Rightarrow> map_sum id (Arr2 w) (bc_rows f A B))"

fun np_binop :: "('a \<Rightarrow> 'b \<Rightarrow> 'c) \<Rightarrow> 'a ndarray \<Rightarrow> 'b ndarray \<Rightarrow> error + 'c ndarray" where
  "np_binop f (Arr1 xs) (Arr1 ys) = map_sum id Arr1 (bc f xs ys)"
| "np_binop f (Arr2 c A) (Arr2 d B) = bc_matrix f c A d B"
| "np_binop f (Arr1 xs) (Arr2 d B) = bc_matrix f (length xs) [xs] d B"
| "np_binop f (Arr2 c A) (Arr1 ys) = bc_matrix f c A (length ys) [ys]"

text \<open>\<^verbatim>\<open>xs[lo:hi] = v\<close> and \<^verbatim>\<open>xs[lo:] = v\<close> on arrays: the value must have the length of the
  slice, or length 1.\<close>

definition np_assign :: "'a list \<Rightarrow> int \<Rightarrow> int \<Rightarrow> 'a list \<Rightarrow> error + 'a list" where
  "np_assign xs lo hi v =
     (let a = py_bound (length xs) lo; b = py_bound (length xs) hi; w = b - a
      in if length v = w then Inr (take a xs @ v @ drop (a + w) xs)
         else if length v = 1 then Inr (take a xs @ replicate w (hd v) @ drop (a + w) xs)
         else Inl broadcast_error)"

definition np_assign_from :: "'a list \<Rightarrow> int \<Rightarrow> 'a list \<Rightarrow> error + 'a list" where
  "np_assign_from xs lo v = np_assign xs lo (int (length xs)) v"

text \<open>\<^verbatim>\<open>F[:, lo:hi] = V\<close> and \<^verbatim>\<open>F[:, lo:] = V\<close>, row by row.\<close>

definition assign_cols :: "'a list list \<Rightarrow> int \<Rightarrow> int \<Rightarrow> 'a list list \<Rightarrow> error + 'a list list" where
  "assign_cols F lo hi V =
     (if length V = length F then sequence (map2 (\<lambda>row v. np_assign row lo hi v) F V)
      else if length V = 1 then sequence (map (\<lambda>row. np_assign row lo hi (hd V)) F)
      else Inl broadcast_error)"

definition assign_cols_from :: "'a list list \<Rightarrow> int \<Rightarrow> 'a list list \<Rightarrow> error + 'a list list" where
  "assign_cols_from F lo V =
     (if length V = length F then sequence (map2 (\<lambda>row v. np_assign_from row lo v) F V)
      else if length V = 1 then sequence (map (\<lambda>row. np_assign_from row lo (hd V)) F)
      else Inl broadcast_error)"

text \<open>\<^verbatim>\<open>xs[lo:hi] *= c\<close>.\<close>

definition imul_slice :: "complex list \<Rightarrow> int \<Rightarrow> int \<Rightarrow> complex \<Rightarrow> complex list" where
  "imul_slice xs lo hi c =
     (let a = py_bound (length xs) lo; b = py_bound (length xs) hi; w = b - a
      in take a xs @ map (\<lambda>z. z * c) (take w (drop a xs)) @ drop (a + w) xs)"

text \<open>\<^verbatim>\<open>xs[ind]\<close> with a list of indices, and \<^verbatim>\<open>x[:, ind]\<close> on a matrix of \<open>w\<close> columns: the
  indices are checked against the length of the axis, rows or no rows.\<close>

definition np_take :: "'a list \<Rightarrow> nat list \<Rightarrow> error + 'a list" where
  "np_take xs ind =
     (if list_all (\<lambda>i. i < length xs) ind then Inr (map (\<lambda>i. xs ! i) ind) else Inl IndexError)"

definition np_take_cols :: "nat \<Rightarrow> 'a list list \<Rightarrow> nat list \<Rightarrow> error + 'a ndarray" where
  "np_take_cols w rows ind =
     (if list_all (\<lambda>i. i < w) ind
      then Inr (Arr2 (length ind) (map (\<lambda>row. map (\<lambda>i. row ! i) ind) rows))
      else Inl IndexError)"

subsection \<open>The discrete Fourier transform and scipy's helpers\<close>

text \<open>
  \<^verbatim>\<open>next_fast_len\<close> (scipy.fftpack): targets up to 6 are returned as they are, otherwise
  the least number with no prime factor beyond 5 that is at least the target. A power
  of two lies below twice the target, which bounds the search.
\<close>

fun smooth5 :: "nat \<Rightarrow> bool" where
  "smooth5 n =
     (if n \<le> 1 then n = 1
      else if n mod 2 = 0 then smooth5 (n div 2)
      else if n mod 3 = 0 then smooth5 (n div 3)
      else if n mod 5 = 0 then smooth5 (n div 5)
      else False)"

definition next_fast_len :: "nat \<Rightarrow> nat" where
  "next_fast_len target =
     (if target \<le> 6 then target
      else (case find smooth5 [target..<2 * target] of Some m \<Rightarrow> m | None \<Rightarrow> target))"

text \<open>\<^verbatim>\<open>fft(x, n)\<close> and \<^verbatim>\<open>ifft(y, n)\<close> cut or zero-pad the input to \<open>n\<close> points.\<close>

definition resize :: "nat \<Rightarrow> complex list \<Rightarrow> complex list" where
  "resize n x = take n x @ replicate (n - length x) 0"

definition dft :: "complex list \<Rightarrow> complex list" where
  "dft x =
     (let n = length x
      in map (\<lambda>k. \<Sum>j\<leftarrow>[0..<n]. x ! j * cis (- (2 * pi * real j * real k / real n))) [0..<n])"

definition idft :: "complex list \<Rightarrow> complex list" where
  "idft y =
     (let n = length y
      in map (\<lambda>j. (\<Sum>k\<leftarrow>[0..<n]. y ! k * cis (2 * pi * real j * real k / real n)) / of_nat n)
           [0..<n])"

text \<open>\<^verbatim>\<open>scipy.fftpack.fft(x, n, axis=axis)\<close> of a real array, along its last axis.\<close>

definition np_fft :: "real ndarray \<Rightarrow> nat \<Rightarrow> error + complex ndarray" where
  "np_fft x n =
     (if n < 1 then Inl (ValueError ''Invalid number of FFT data points specified'')
      else (case x of
              Arr1 xs \<Rightarrow> Inr (Arr1 (dft (resize n (map of_real xs))))
            | Arr2 c rows \<Rightarrow> Inr (Arr2 n (map (\<lambda>row. dft (resize n (map of_real row))) rows))))"

text \<open>\<^verbatim>\<open>np.real(scipy.fftpack.ifft(y, n, axis=axis))\<close>: along axis 1 every row is
  transformed, along axis 0 every column.\<close>

definition np_ifft_real :: "complex ndarray \<Rightarrow> nat \<Rightarrow> nat \<Rightarrow> error + real ndarray" where
  "np_ifft_real y n axis =
     (if n < 1 then Inl (ValueError ''Invalid number of FFT data points specified'')
      else (case y of
              Arr1 ys \<Rightarrow> Inr (Arr1 (map Re (idft (resize n ys))))
            | Arr2 c rows \<Rightarrow>
                if axis = 1 then Inr (Arr2 n (map (\<lambda>row. map Re (idft (resize n row))) rows))
                else
                  (let cols = map (\<lambda>k. map (\<lambda>row. row ! k) rows) [0..<c];
                       T = map (\<lambda>col. map Re (idft (resize n col))) cols
                   in Inr (Arr2 c (map (\<lambda>j. map (\<lambda>t. t ! j) T) [0..<n])))))"

text \<open>\<^verbatim>\<open>fftfreq(n, d)\<close>: the non-negative frequencies first, then the negative ones.\<close>

definition fftfreq :: "nat \<Rightarrow> real \<Rightarrow> error + real list" where
  "fftfreq n d =
     (if real n * d = 0 then Inl ZeroDivisionError
      else Inr (map (\<lambda>k. of_int k * (1 / (real n * d)))
                  (map int [0..<(n - 1) div 2 + 1] @
                   map (\<lambda>j. int j - int (n div 2)) [0..<n div 2])))"

definition np_linspace :: "real \<Rightarrow> real \<Rightarrow> int \<Rightarrow> error + real list" where
  "np_linspace a b num =
     (if num < 0 then Inl (ValueError ''Number of samples must be non-negative'')
      else Inr (map (\<lambda>i. a + real i * ((b - a) / real (nat num - 1))) [0..<nat num]))"

text \<open>\<^verbatim>\<open>np.round\<close>: to the nearest integer, a tie to the even one.\<close>

definition np_round :: "real \<Rightarrow> int" where
  "np_round x =
     (let f = \<lfloor>x\<rfloor>; d = x - of_int f
      in if d < 1 / 2 then f else if 1 / 2 < d then f + 1 else if even f then f else f + 1)"

subsection \<open>Spectral whitening: whiten\<close>

text \<open>\<^verbatim>\<open>np.exp(1j * np.angle(z))\<close>: the phase of \<open>z\<close> on the unit circle, 1 for \<open>z = 0\<close>.\<close>

definition unit_phase :: "complex \<Rightarrow> complex" where
  "unit_phase z = cis (Arg z)"

definition pad :: int where
  "pad = 100"

text \<open>A taper (rank one) times a block of columns (rank two).\<close>

definition taper_cols :: "real list \<Rightarrow> complex list list \<Rightarrow> error + complex list list" where
  "taper_cols w V = sequence (map (bc (\<lambda>c z. of_real c * z) w) V)"

text \<open>The branch \<^verbatim>\<open>axis == 1\<close> of whiten (lines 502--516). The last statement assigns
  \<^verbatim>\<open>FFTRawSign[:,1:(Nfft // 2)].conjugate()[::-1]\<close>; on a matrix \<^verbatim>\<open>[::-1]\<close> reverses the
  first axis, the rows.\<close>

definition whiten_axis1 ::
    "int \<Rightarrow> int \<Rightarrow> int \<Rightarrow> int \<Rightarrow> nat \<Rightarrow> complex list list \<Rightarrow> error + complex list list" where
  "whiten_axis1 low left right high Nfft F =
     (let F1 = map (\<lambda>row. imul_slice row 0 low 0) F in
      (case np_linspace (pi / 2) pi (left - low) of
         Inl e \<Rightarrow> Inl e
       | Inr ls \<Rightarrow>
      (case taper_cols (map (\<lambda>c. cos c ^ 2) ls)
              (map (\<lambda>row. map unit_phase (py_slice row low left)) F1) of
         Inl e \<Rightarrow> Inl e
       | Inr V2 \<Rightarrow>
      (case assign_cols F1 low left V2 of
         Inl e \<Rightarrow> Inl e
       | Inr F2 \<Rightarrow>
      (case assign_cols F2 left right (map (\<lambda>row. map unit_phase (py_slice row left right)) F2) of
         Inl e \<Rightarrow> Inl e
       | Inr F3 \<Rightarrow>
      (case np_linspace 0 (pi / 2) (high - right) of
         Inl e \<Rightarrow> Inl e
       | Inr rs \<Rightarrow>
      (case taper_cols (map (\<lambda>c. cos c ^ 2) rs)
              (map (\<lambda>row. map unit_phase (py_slice row right high)) F3) of
         Inl e \<Rightarrow> Inl e
       | Inr V4 \<Rightarrow>
      (case assign_cols F3 right high V4 of
         Inl e \<Rightarrow> Inl e
       | Inr F4 \<Rightarrow>
          (let F5 = map (\<lambda>row. imul_slice row high (int Nfft + 1) 0) F4
           in assign_cols_from F5 (- int (Nfft div 2) + 1)
                (rev (map (\<lambda>row. map cnj (py_slice row 1 (int (Nfft div 2)))) F5)))))))))))"

text \<open>The branch for rank one (lines 518--531); here \<^verbatim>\<open>[::-1]\<close> reverses the bins.\<close>

definition whiten_axis0 ::
    "int \<Rightarrow> int \<Rightarrow> int \<Rightarrow> int \<Rightarrow> nat \<Rightarrow> complex list \<Rightarrow> error + complex list" where
  "whiten_axis0 low left right high Nfft F =
     (let F1 = imul_slice F 0 low 0 in
      (case np_linspace (pi / 2) pi (left - low) of
         Inl e \<Rightarrow> Inl e
       | Inr ls \<Rightarrow>
      (case bc (\<lambda>c z. of_real c * z) (map (\<lambda>c. cos c ^ 2) ls)
              (map unit_phase (py_slice F1 low left)) of
         Inl e \<Rightarrow> Inl e
       | Inr v2 \<Rightarrow>
      (case np_assign F1 low left v2 of
         Inl e \<Rightarrow> Inl e
       | Inr F2 \<Rightarrow>
      (case np_assign F2 left right (map unit_phase (py_slice F2 left right)) of
         Inl e \<Rightarrow> Inl e
       | Inr F3 \<Rightarrow>
      (case np_linspace 0 (pi / 2) (high - right) of
         Inl e \<Rightarrow> Inl e
       | Inr rs \<Rightarrow>
      (case bc (\<lambda>c z. of_real c * z) (map (\<lambda>c. cos c ^ 2) rs)
              (map unit_phase (py_slice F3 right high)) of
         Inl e \<Rightarrow> Inl e
       | Inr v4 \<Rightarrow>
      (case np_assign F3 right high v4 of
         Inl e \<Rightarrow> Inl e
       | Inr F4 \<Rightarrow>
          (let F5 = imul_slice F4 high (int Nfft + 1) 0
           in np_assign_from F5 (- int (Nfft div 2) + 1)
                (rev (map cnj (py_slice F5 1 (int (Nfft div 2))))))))))))))"

definition whiten ::
    "real ndarray \<Rightarrow> real \<Rightarrow> real \<Rightarrow> real \<Rightarrow> bool \<Rightarrow> nat option \<Rightarrow> error + complex ndarray" where
  "whiten x delta freqmin freqmax to_whiten Nfft_arg =
     (let Nfft = (case Nfft_arg of None \<Rightarrow> next_fast_len (shape_axis x) | Some n \<Rightarrow> n) in
      (case fftfreq Nfft delta of
         Inl e \<Rightarrow> Inl e
       | Inr freqs \<Rightarrow>
          (let freqVec = py_slice_to freqs (int (Nfft div 2));
               J = filter (\<lambda>i. freqVec ! i \<ge> freqmin \<and> freqVec ! i \<le> freqmax)
                     [0..<length freqVec]
           in if J = [] then Inl IndexError
              else
                (let low0 = int (hd J) - pad;
                     low = (if low0 \<le> 0 then 1 else low0);
                     left = int (hd J);
                     right = int (last J);
                     high0 = int (last J) + pad;
                     high = (if of_int high0 > real Nfft / 2 then int (Nfft div 2) else high0)
                 in (case np_fft x Nfft of
                       Inl e \<Rightarrow> Inl e
                     | Inr FFTRawSign \<Rightarrow>
                         if to_whiten then
                           (case FFTRawSign of
                              Arr2 c F \<Rightarrow>
                                (case whiten_axis1 low left right high Nfft F of
                                   Inl e \<Rightarrow> Inl e
                                 | Inr F' \<Rightarrow> Inr (Arr2 c F'))
                            | Arr1 F \<Rightarrow>
                                (case whiten_axis0 low left right high Nfft F of
                                   Inl e \<Rightarrow> Inl e
                                 | Inr F' \<Rightarrow> Inr (Arr1 F')))
                         else Inr FFTRawSign)))))"

text \<open>Conjugate symmetry of a spectrum of \<open>N\<close> bins: bin \<open>k\<close> is the conjugate of bin
  \<open>N - k\<close> for every \<open>k\<close> from 1 up to, and without, \<open>N / 2\<close>.\<close>

definition hermitian :: "nat \<Rightarrow> complex list \<Rightarrow> bool" where
  "hermitian N row =
     list_all (\<lambda>k. row ! k = cnj (row ! (N - k))) (filter (\<lambda>k. 2 * k < N) [1..<N])"

subsection \<open>The correlation engine: correlate\<close>

text \<open>\<^verbatim>\<open>corr /= d\<close>: the quotient must keep the shape of \<^verbatim>\<open>corr\<close>. Where numpy divides by
  zero and yields an infinity or a NaN, the model's quotient is 0.\<close>

definition np_idiv :: "complex ndarray \<Rightarrow> real ndarray \<Rightarrow> error + complex ndarray" where
  "np_idiv corr d =
     (case np_binop (\<lambda>z r. z / of_real r) corr d of
        Inl e \<Rightarrow> Inl e
      | Inr q \<Rightarrow> if shape q = shape corr then Inr q else Inl broadcast_error)"

text \<open>\<^verbatim>\<open>np.mean(x, axis=1)\<close>: an array of rank one has no axis 1.\<close>

fun np_mean_axis1 :: "real ndarray \<Rightarrow> error + real list" where
  "np_mean_axis1 (Arr1 xs) = Inl AxisError"
| "np_mean_axis1 (Arr2 c rows) = Inr (map (\<lambda>row. sum_list row / real (length row)) rows)"

text \<open>\<^verbatim>\<open>0.01 * np.mean(noise.smooth(np.abs(X), half_win=20), axis=1)[:, np.newaxis]\<close>.
  \<^verbatim>\<open>noise.smooth\<close> is not part of \<^verbatim>\<open>compute_cc.py\<close>; it is the parameter \<open>smooth\<close>, applied
  to the array and the half window.\<close>

definition regulariser ::
    "(real ndarray \<Rightarrow> nat \<Rightarrow> real ndarray) \<Rightarrow> complex ndarray \<Rightarrow> error + real ndarray" where
  "regulariser smooth X =
     (case np_mean_axis1 (smooth (map_ndarray cmod X) 20) of
        Inl e \<Rightarrow> Inl e
      | Inr m \<Rightarrow> Inr (Arr2 1 (map (\<lambda>v. [0.01 * v]) m)))"

text \<open>Lines 425--433: the product \<^verbatim>\<open>fft1 * np.conj(fft2)\<close> and the division the method
  asks for.\<close>

definition cross_spectrum ::
    "(real ndarray \<Rightarrow> nat \<Rightarrow> real ndarray) \<Rightarrow> complex ndarray \<Rightarrow> complex ndarray \<Rightarrow> string \<Rightarrow>
     error + complex ndarray" where
  "cross_spectrum smooth fft1 fft2 method =
     (case np_binop (*) fft1 (map_ndarray cnj fft2) of
        Inl e \<Rightarrow> Inl e
      | Inr corr \<Rightarrow>
          if method = ''deconv'' then
            (case regulariser smooth fft1 of
               Inl e \<Rightarrow> Inl e
             | Inr reg \<Rightarrow>
            (case np_binop (+) (map_ndarray (\<lambda>v. v ^ 2) (smooth (map_ndarray cmod fft2) 20)) reg of
               Inl e \<Rightarrow> Inl e
             | Inr d \<Rightarrow> np_idiv corr d))
          else if method = ''coherence'' then
            (case regulariser smooth fft1 of
               Inl e \<Rightarrow> Inl e
             | Inr reg1 \<Rightarrow>
            (case np_binop (+) (smooth (map_ndarray cmod fft1) 20) reg1 of
               Inl e \<Rightarrow> Inl e
             | Inr d1 \<Rightarrow>
            (case np_idiv corr d1 of
               Inl e \<Rightarrow> Inl e
             | Inr corr' \<Rightarrow>
            (case regulariser smooth fft2 of
               Inl e \<Rightarrow> Inl e
             | Inr reg2 \<Rightarrow>
            (case np_binop (+) (smooth (map_ndarray cmod fft2) 20) reg2 of
               Inl e \<Rightarrow> Inl e
             | Inr d2 \<Rightarrow> np_idiv corr' d2)))))
          else Inr corr)"

text \<open>\<^verbatim>\<open>np.concatenate((c[-Nt//2 + 1:], c[:Nt//2 + 1]))\<close>; \<^verbatim>\<open>-Nt//2\<close> is \<open>\<lfloor>-Nt / 2\<rfloor>\<close>.\<close>

definition recentre :: "'a list \<Rightarrow> nat \<Rightarrow> 'a list" where
  "recentre c Nt = py_slice_from c ((- int Nt) div 2 + 1) @ py_slice_to c (int (Nt div 2) + 1)"

text \<open>The number of columns of that concatenation along axis 1, for a matrix of \<open>w\<close>
  columns: those of the two slices.\<close>

definition recentre_width :: "nat \<Rightarrow> nat \<Rightarrow> nat" where
  "recentre_width w Nt =
     (w - py_bound w ((- int Nt) div 2 + 1)) + py_bound w (int (Nt div 2) + 1)"

text \<open>\<^verbatim>\<open>np.where(np.abs(tcorr) <= maxlag)[0]\<close> for
  \<^verbatim>\<open>tcorr = np.arange(-Nt//2 + 1, Nt//2)\<close>.\<close>

definition lag_indices :: "nat \<Rightarrow> int \<Rightarrow> nat list" where
  "lag_indices Nt maxlag =
     (let tcorr = map (\<lambda>i. (- int Nt) div 2 + 1 + int i)
                    [0..<nat (int (Nt div 2) - ((- int Nt) div 2 + 1))]
      in filter (\<lambda>i. \<bar>tcorr ! i\<bar> \<le> maxlag) [0..<length tcorr])"

definition correlate ::
    "(real ndarray \<Rightarrow> nat \<Rightarrow> real ndarray) \<Rightarrow> complex ndarray \<Rightarrow> complex ndarray \<Rightarrow> real \<Rightarrow>
     nat option \<Rightarrow> string \<Rightarrow> error + real ndarray" where
  "correlate smooth fft1 fft2 maxlag Nfft_arg method =
     (let axis = (case fft1 of Arr1 _ \<Rightarrow> 0 | Arr2 _ _ \<Rightarrow> (1::nat));
          Nfft = (case Nfft_arg of None \<Rightarrow> next_fast_len (shape_axis fft1) | Some n \<Rightarrow> n);
          maxlag' = np_round maxlag;
          Nt = shape_axis fft1
      in
      (case cross_spectrum smooth fft1 fft2 method of
         Inl e \<Rightarrow> Inl e
       | Inr corr \<Rightarrow>
      (case np_ifft_real corr Nfft axis of
         Inl e \<Rightarrow> Inl e
       | Inr corr' \<Rightarrow>
          (let ind = lag_indices Nt maxlag'
           in (case corr' of
                 Arr1 c \<Rightarrow> map_sum id Arr1 (np_take (recentre c Nt) ind)
               | Arr2 w rows \<Rightarrow>
                   if axis = 1 then
                     np_take_cols (recentre_width w Nt) (map (\<lambda>row. recentre row Nt) rows) ind
                   else map_sum id (Arr2 w) (np_take (recentre rows Nt) ind))))))"

text \<open>A matrix of \<open>r\<close> rows of \<open>c\<close> entries each, and a smoother that keeps that shape (with the
  half window 20 the code passes).\<close>

definition rect :: "nat \<Rightarrow> nat \<Rightarrow> 'a list list \<Rightarrow> bool" where
  "rect r c M = (length M = r \<and> list_all (\<lambda>row. length row = c) M)"

definition keeps_shape :: "(real ndarray \<Rightarrow> nat \<Rightarrow> real ndarray) \<Rightarrow> nat \<Rightarrow> nat \<Rightarrow> bool" where
  "keeps_shape smooth r c =
     (\<forall>M. rect r c M \<longrightarrow> (\<exists>M'. smooth (Arr2 c M) 20 = Arr2 c M' \<and> rect r c M'))"

definition keeps_rank1 :: "(real ndarray \<Rightarrow> nat \<Rightarrow> real ndarray) \<Rightarrow> bool" where
  "keeps_rank1 smooth = (\<forall>v. \<exists>w. smooth (Arr1 v) 20 = Arr1 w)"

text \<open>
  The specification's words for the result: the samples of the lags \<open>-M, \<dots>, M\<close> of a
  correlation, in the order of the lag, so that sample \<open>M\<close> of the \<open>2 * M + 1\<close> is lag
  zero. In the circular correlation \<open>c\<close> that an inverse transform of \<open>n\<close> points gives,
  lag \<open>k\<close> is sample \<open>k mod n\<close>: the negative lags are at the end.
\<close>

definition spec_lag_sample :: "'a list \<Rightarrow> int \<Rightarrow> 'a" where
  "spec_lag_sample c k = c ! nat (k mod int (length c))"

definition spec_centred_lags :: "nat \<Rightarrow> 'a list \<Rightarrow> 'a list" where
  "spec_centred_lags M c = map (\<lambda>j. spec_lag_sample c (int j - int M)) [0..<2 * M + 1]"

subsection \<open>Instances of the parameters, to run the model on concrete inputs\<close>

text \<open>A library that changes nothing and reports no gap.\<close>

definition quiet_lib :: noise_lib where
  "quiet_lib =
     \<lparr>check_sample = (\<lambda>st. st), downsample = (\<lambda>st f. st), remove_small_traces = (\<lambda>st. st),
      getGaps = (\<lambda>st. []), check_and_phase_shift = (\<lambda>tr. tr), trace_add = (\<lambda>a b. None),
      stream_merge = (\<lambda>st. st)\<rparr>"




definition segment :: "real \<Rightarrow> real list \<Rightarrow> trace" where
  "segment t xs = \<lparr>trace_id = ''XX.STA..BHZ'', starttime = t, sampling_rate = 1, data = xs\<rparr>"

text \<open>A smoother for \<^verbatim>\<open>noise.smooth\<close>: the mean over the bins within the half window,
  the window cut at the ends of the row.\<close>

definition moving_average :: "nat \<Rightarrow> real list \<Rightarrow> real list" where
  "moving_average hw xs =
     map (\<lambda>i. let w = take (min (length xs) (i + hw + 1) - (i - hw)) (drop (i - hw) xs)
              in sum_list w / real (length w)) [0..<length xs]"

definition boxcar_smooth :: "real ndarray \<Rightarrow> nat \<Rightarrow> real ndarray" where
  "boxcar_smooth x hw =
     (case x of
        Arr1 xs \<Rightarrow> Arr1 (moving_average hw xs)
      | Arr2 c rows \<Rightarrow> Arr2 c (map (moving_average hw) rows))"

section \<open>The stream conditioner\<close>

subsection \<open>List primitives\<close>

lemma py_position_less: "py_position n i = Some j \<Longrightarrow> j < n"
  by (auto simp: py_position_def split: if_splits)

lemma py_position_nat: "py_position n (int i) = (if i < n then Some i else None)"
  by (simp add: py_position_def)

lemma py_setitem_length: "py_setitem xs i v = Inr ys \<Longrightarrow> length ys = length xs"
  by (auto simp: py_setitem_def split: option.splits)

lemma py_index_mem: "py_index xs i = Inr x \<Longrightarrow> x \<in> set xs"
  by (auto simp: py_index_def split: option.splits dest: py_position_less)

lemma py_index_error: "py_index xs i = Inl e \<Longrightarrow> e = IndexError"
  by (auto simp: py_index_def split: option.splits)

lemma py_setitem_error: "py_setitem xs i v = Inl e \<Longrightarrow> e = IndexError"
  by (auto simp: py_setitem_def split: option.splits)

lemma py_index_nat: "py_index xs (int i) = (if i < length xs then Inr (xs ! i) else Inl IndexError)"
  by (simp add: py_index_def py_position_nat)

subsection \<open>The zero-trace filter keeps the traces whose maximum is not zero\<close>

lemma drop_zero_traces_keeps:
  assumes "\<forall>tr \<in> set trs. data tr \<noteq> []" and "\<forall>k \<in> set kept. np_max (data k) \<noteq> Inr 0"
  shows "drop_zero_traces trs (kept @ trs) =
         Inr (kept @ filter (\<lambda>tr. np_max (data tr) \<noteq> Inr 0) trs)"
  using assms
proof (induction trs arbitrary: kept)
  case Nil
  then show ?case by simp
next
  case (Cons tr trs)
  from Cons.prems(1) obtain x xs where d: "data tr = x # xs" by (cases "data tr") auto
  show ?case
  proof (cases "fold max xs x = 0")
    case True
    then have z: "np_max (data tr) = Inr 0" using d by simp
    with Cons.prems(2) have "tr \<notin> set kept" by auto
    then have "remove1 tr (kept @ tr # trs) = kept @ trs" by (simp add: remove1_append)
    with z d True Cons show ?thesis by (simp add: py_remove_def)
  next
    case False
    then have nz: "np_max (data tr) \<noteq> Inr 0" using d by simp
    with Cons.prems have "\<forall>k \<in> set (kept @ [tr]). np_max (data k) \<noteq> Inr 0" by auto
    with Cons.IH [of "kept @ [tr]"] Cons.prems(1)
    have "drop_zero_traces trs ((kept @ [tr]) @ trs) =
          Inr ((kept @ [tr]) @ filter (\<lambda>tr. np_max (data tr) \<noteq> Inr 0) trs)" by simp
    with d False nz show ?thesis by simp
  qed
qed

lemma zero_trace_filter:
  assumes "\<forall>tr \<in> set st. data tr \<noteq> []"
  shows "drop_zero_traces st st = Inr (filter (\<lambda>tr. np_max (data tr) \<noteq> Inr 0) st)"
  using drop_zero_traces_keeps [of st "[]"] assms by simp

text \<open>
  C4. The claim: the zero-trace stage of \<open>process_raw\<close> removes exactly the traces whose
  largest absolute sample is zero, and every trace with a non-zero sample survives.
  The code compares \<^verbatim>\<open>tr.data.max()\<close>, the largest sample, with zero, under the comment
  "check for traces with only zeros". A trace with the samples \<open>-1, 0\<close> has the largest
  absolute sample 1 and the largest sample 0: the stage removes it, and \<open>process_raw\<close>
  then fails with \<open>EmptyStream\<close> on a stream that holds a trace which is not all zero.
\<close>

theorem zero_filter_drops_nonpositive_trace:
  "max_abs_amplitude (data (segment 0 [- 1, 0])) = 1 \<and>
   drop_zero_traces [segment 0 [- 1, 0]] [segment 0 [- 1, 0]] = Inr [] \<and>
   process_raw quiet_lib [segment 0 [- 1, 0]] 1 = Some (Inl EmptyStream)"
  by (simp add: max_abs_amplitude_def segment_def py_remove_def process_raw_def quiet_lib_def)

subsection \<open>The trace-count check\<close>

lemma np_max_error: "np_max xs = Inl e \<Longrightarrow> e \<noteq> TooManyTraces"
  by (cases xs) (auto simp: TooManyTraces_def)

lemma drop_zero_traces_error:
  "drop_zero_traces trs st = Inl e \<Longrightarrow> e \<noteq> TooManyTraces"
proof (induction trs arbitrary: st)
  case Nil
  then show ?case by simp
next
  case (Cons tr trs)
  then show ?case
    by (auto split: sum.splits if_splits dest: np_max_error
        simp: py_remove_def TooManyTraces_def)
qed

subsection \<open>The gap-repair loop\<close>

lemma gap_pass_result:
  "gap_pass L gs st n = Inr (st', m) \<Longrightarrow>
     (m = n + length gs \<and> st' = st \<and> (\<forall>g \<in> set gs. max_gap < nsamples g)) \<or>
     (m < n + length gs \<and> Suc (length st') = length st)"
proof (induction gs arbitrary: n)
  case Nil
  then show ?case by simp
next
  case (Cons g gs)
  show ?case
  proof (cases "nsamples g \<le> max_gap")
    case False
    with Cons.prems have "gap_pass L gs st (n + 1) = Inr (st', m)" by simp
    from Cons.IH [OF this] False show ?thesis by auto
  next
    case True
    with Cons.prems obtain mg st1 c where
      st1: "py_setitem st (first_index g) mg = Inr st1" and
      c: "py_index st1 (second_index g) = Inr c" and
      r: "py_remove c st1 = Inr st'" and m: "m = n"
      by (auto split: sum.splits option.splits)
    from c have "c \<in> set st1" by (rule py_index_mem)
    with r have "st' = remove1 c st1" by (simp add: py_remove_def)
    with \<open>c \<in> set st1\<close> have "Suc (length st') = length st1"
      by (simp add: length_remove1) (metis Suc_pred length_pos_if_in_set)
    with st1 m show ?thesis by (auto dest: py_setitem_length)
  qed
qed

lemma gap_pass_error:
  "gap_pass L gs st n = Inl e \<Longrightarrow> e = IndexError \<or> e = TypeError"
proof (induction gs arbitrary: n)
  case Nil
  then show ?case by simp
next
  case (Cons g gs)
  show ?case
  proof (cases "nsamples g \<le> max_gap")
    case False
    with Cons show ?thesis by simp
  next
    case True
    with Cons.prems show ?thesis
      by (auto split: sum.splits option.splits if_splits
          dest: py_index_error py_setitem_error py_index_mem simp: py_remove_def)
  qed
qed

lemma gap_loop_returns:
  "\<exists>r. gap_loop L st False = Some r \<and>
       (case r of
          Inl e \<Rightarrow> e = IndexError \<or> e = TypeError
        | Inr st' \<Rightarrow> length st' \<le> length st \<and>
            (getGaps L st' = [] \<or> (\<forall>g \<in> set (getGaps L st'). max_gap < nsamples g)))"
proof (induction "length st" arbitrary: st rule: less_induct)
  case less
  show ?case
  proof (cases "getGaps L st = []")
    case True
    then show ?thesis by (subst gap_loop.simps) simp
  next
    case False
    show ?thesis
    proof (cases "gap_pass L (getGaps L st) st 0")
      case (Inl e)
      with False have "gap_loop L st False = Some (Inl e)"
        by (subst gap_loop.simps) simp
      moreover from Inl have "e = IndexError \<or> e = TypeError" by (rule gap_pass_error)
      ultimately show ?thesis by simp
    next
      case (Inr p)
      obtain st' m where p: "p = (st', m)" by (cases p)
      with Inr have pass: "gap_pass L (getGaps L st) st 0 = Inr (st', m)" by simp
      from False pass
      have step: "gap_loop L st False = gap_loop L st' (m = length (getGaps L st))"
        by (subst gap_loop.simps) simp
      from gap_pass_result [OF pass] show ?thesis
      proof
        assume a: "m = 0 + length (getGaps L st) \<and> st' = st \<and>
                   (\<forall>g \<in> set (getGaps L st). max_gap < nsamples g)"
        then have "gap_loop L st' (m = length (getGaps L st)) = Some (Inr st)"
          by (subst gap_loop.simps) simp
        with step a show ?thesis by simp
      next
        assume a: "m < 0 + length (getGaps L st) \<and> Suc (length st') = length st"
        then have "length st' < length st" by simp
        from less [OF this] obtain r where
          r: "gap_loop L st' False = Some r"
             "case r of
                Inl e \<Rightarrow> e = IndexError \<or> e = TypeError
              | Inr st'' \<Rightarrow> length st'' \<le> length st' \<and>
                  (getGaps L st'' = [] \<or> (\<forall>g \<in> set (getGaps L st''). max_gap < nsamples g))"
          by blast
        from a have "(m = length (getGaps L st)) = False" by simp
        with step r(1) have "gap_loop L st False = Some r" by simp
        moreover from r(2) a have
          "case r of
             Inl e \<Rightarrow> e = IndexError \<or> e = TypeError
           | Inr st'' \<Rightarrow> length st'' \<le> length st \<and>
               (getGaps L st'' = [] \<or> (\<forall>g \<in> set (getGaps L st''). max_gap < nsamples g))"
          by (auto split: sum.splits)
        ultimately show ?thesis by blast
      qed
    qed
  qed
qed






subsection \<open>The ceiling on the trace count is 100 traces, inclusive\<close>

lemma process_raw_past_check:
  assumes "\<not> 100 < length st"
  shows "process_raw L st f \<noteq> Some (Inl TooManyTraces)"
proof
  assume eq: "process_raw L st f = Some (Inl TooManyTraces)"
  let ?cs = "check_sample L st"
  show False
  proof (cases "drop_zero_traces ?cs ?cs")
    case (Inl e)
    with eq assms have "e = TooManyTraces" by (simp add: process_raw_def)
    with Inl drop_zero_traces_error show False by blast
  next
    case (Inr st1)
    let ?st2 = "remove_small_traces L (downsample L st1 f)"
    have ne: "EmptyStream \<noteq> TooManyTraces" by (simp add: EmptyStream_def TooManyTraces_def)
    from eq assms Inr ne have st1: "st1 \<noteq> []" and st2: "?st2 \<noteq> []"
      by (auto simp: process_raw_def Let_def split: if_splits)
    show False
    proof (cases "getGaps L ?st2 = []")
      case True
      with eq assms Inr st1 st2 show False by (simp add: process_raw_def Let_def)
    next
      case False
      obtain r where r: "gap_loop L ?st2 False = Some r"
        "case r of
           Inl e \<Rightarrow> e = IndexError \<or> e = TypeError
         | Inr st' \<Rightarrow> length st' \<le> length ?st2 \<and>
             (getGaps L st' = [] \<or> (\<forall>g \<in> set (getGaps L st'). max_gap < nsamples g))"
        using gap_loop_returns by blast
      with eq assms Inr st1 st2 False show False
        by (auto simp: process_raw_def Let_def TooManyTraces_def split: sum.splits)
    qed
  qed
qed

text \<open>
  C5, as the claim states it, fails: a stream of exactly 100 traces passes the check
  (the test is \<^verbatim>\<open>len(st) > 100\<close>) and, here, is returned whole.
\<close>

theorem hundred_traces_pass_counterexample:
  "length (replicate 100 (segment 0 [1])) = 100 \<and>
   process_raw quiet_lib (replicate 100 (segment 0 [1])) 1 =
     Some (Inr (replicate 100 (segment 0 [1])))"
proof -
  let ?st = "replicate 100 (segment 0 [1])"
  have "\<forall>tr \<in> set ?st. data tr \<noteq> []" by (simp add: segment_def)
  from zero_trace_filter [OF this]
  have "drop_zero_traces ?st ?st = Inr ?st" by (simp add: segment_def)
  then show ?thesis by (simp add: process_raw_def quiet_lib_def)
qed

text \<open>
  C5, amended: \<open>process_raw\<close> fails with \<open>TooManyTraces\<close> exactly when the raw stream holds
  more than 100 traces; a stream of at most 100 traces never raises that error, whatever
  the later stages do.
\<close>

theorem too_many_traces_iff:
  "process_raw L st downsamp_freq = Some (Inl TooManyTraces) \<longleftrightarrow> 100 < length st"
proof
  assume "process_raw L st downsamp_freq = Some (Inl TooManyTraces)"
  then show "100 < length st" using process_raw_past_check by blast
next
  assume "100 < length st"
  then show "process_raw L st downsamp_freq = Some (Inl TooManyTraces)"
    by (simp add: process_raw_def)
qed

section \<open>Time alignment\<close>

lemma argmin_from_spec:
  assumes "best < i" "length pre = i" "pre ! best = v" "\<forall>j<i. v \<le> pre ! j"
  shows "argmin_from xs i best v < length (pre @ xs) \<and>
         (\<forall>j < length (pre @ xs). (pre @ xs) ! argmin_from xs i best v \<le> (pre @ xs) ! j)"
  using assms
proof (induction xs arbitrary: i best v pre)
  case Nil
  then show ?case by simp
next
  case (Cons x xs)
  show ?case
  proof (cases "x < v")
    case True
    have "argmin_from xs (i + 1) i x < length ((pre @ [x]) @ xs) \<and>
         (\<forall>j < length ((pre @ [x]) @ xs). ((pre @ [x]) @ xs) ! argmin_from xs (i + 1) i x \<le> ((pre @ [x]) @ xs) ! j)"
    proof (rule Cons.IH)
      show "i < i + 1" by simp
      show "length (pre @ [x]) = i + 1" using Cons.prems by simp
      show "(pre @ [x]) ! i = x" using Cons.prems by (simp add: nth_append)
      show "\<forall>j<i + 1. x \<le> (pre @ [x]) ! j"
        using Cons.prems True by (auto simp: nth_append less_Suc_eq intro: order_trans less_imp_le)
    qed
    with True show ?thesis by simp
  next
    case False
    have "argmin_from xs (i + 1) best v < length ((pre @ [x]) @ xs) \<and>
         (\<forall>j < length ((pre @ [x]) @ xs). ((pre @ [x]) @ xs) ! argmin_from xs (i + 1) best v \<le> ((pre @ [x]) @ xs) ! j)"
    proof (rule Cons.IH)
      show "best < i + 1" using Cons.prems by simp
      show "length (pre @ [x]) = i + 1" using Cons.prems by simp
      show "(pre @ [x]) ! best = v" using Cons.prems by (simp add: nth_append)
      show "\<forall>j<i + 1. v \<le> (pre @ [x]) ! j"
        using Cons.prems False by (auto simp: nth_append less_Suc_eq)
    qed
    with False show ?thesis by simp
  qed
qed

lemma np_argmin_spec:
  assumes "xs \<noteq> []"
  shows "\<exists>i. np_argmin xs = Inr i \<and> i < length xs \<and> (\<forall>j < length xs. xs ! i \<le> xs ! j)"
proof -
  from assms obtain x rest where xs: "xs = x # rest" by (cases xs) auto
  have "argmin_from rest 1 0 x < length ([x] @ rest) \<and>
        (\<forall>j < length ([x] @ rest). ([x] @ rest) ! argmin_from rest 1 0 x \<le> ([x] @ rest) ! j)"
    by (rule argmin_from_spec) auto
  with xs show ?thesis by simp
qed

lemma day_start_bounds: "0 \<le> t - day_start t \<and> t - day_start t < 86400"
proof -
  have "of_int \<lfloor>t / 86400\<rfloor> \<le> t / 86400" by (rule of_int_floor_le)
  moreover have "t / 86400 < of_int \<lfloor>t / 86400\<rfloor> + 1" by linarith
  ultimately show ?thesis by (simp add: day_start_def field_simps)
qed

lemma py_range0_pos:
  assumes "0 < step"
  shows "\<exists>n. py_range0 (86400 + step) step = Inr (map (\<lambda>k. int k * step) [0..<n]) \<and>
             0 < n \<and> 86400 \<le> int (n - 1) * step"
proof -
  define q where "q = (- 86400) div step"
  have shift: "(- (86400 + step)) div step = q - 1"
    using assms div_add_self2 [of step "- (86400 + step)"] by (simp add: q_def)
  have "q < 0" using assms by (simp add: q_def div_neg_pos_less0)
  have "q * step + (- 86400) mod step = - 86400" by (simp add: q_def)
  moreover have "0 \<le> (- 86400) mod step" using assms by simp
  ultimately have "q * step \<le> - 86400" by linarith
  then have "86400 \<le> (- q) * step" by simp
  moreover have "int (nat (1 - q) - 1) = - q" using \<open>q < 0\<close> by simp
  moreover have "0 < nat (1 - q)" using \<open>q < 0\<close> by simp
  moreover have "py_range0 (86400 + step) step = Inr (map (\<lambda>k. int k * step) [0..<nat (1 - q)])"
    using assms shift by (simp add: py_range0_def)
  ultimately show ?thesis by metis
qed

lemma grid_snap:
  assumes step: "0 < step" and n: "0 < n" "86400 \<le> int (n - 1) * step"
    and ss: "ss = map (\<lambda>k. int k * step) [0..<n]"
    and ts: "ts = map (\<lambda>s. day_start t + of_int s) ss"
  shows "\<exists>ind. np_argmin (map abs (map (\<lambda>u. u - t) ts)) = Inr ind \<and>
               \<bar>ts ! ind - t\<bar> \<le> of_int step / 2 \<and>
               (\<forall>k. t = day_start t + of_int (int k * step) \<longrightarrow> ts ! ind = t)"
proof -
  let ?ds = "map abs (map (\<lambda>u. u - t) ts)"
  define tau where "tau = t - day_start t"
  have tau: "0 \<le> tau" "tau < 86400" using day_start_bounds [of t] by (simp_all add: tau_def)
  have len: "length ?ds = n" "length ts = n" by (simp_all add: ts ss)
  have nth: "\<And>j. j < n \<Longrightarrow> ?ds ! j = \<bar>of_int (int j * step) - tau\<bar>"
    by (simp add: ts ss tau_def)
  from n(1) have "?ds \<noteq> []" using len by auto
  from np_argmin_spec [OF this] obtain ind where
    ind: "np_argmin ?ds = Inr ind" "ind < n" "\<forall>j<n. ?ds ! ind \<le> ?ds ! j"
    using len by auto
  have val: "\<bar>ts ! ind - t\<bar> = ?ds ! ind" using ind(2) len by simp
  \<comment> \<open>the grid point nearest to the time of day\<close>
  define k0 where "k0 = nat \<lfloor>tau / of_int step + 1 / 2\<rfloor>"
  have sp: "0 < (of_int step :: real)" using step by simp
  have fl_nonneg: "0 \<le> \<lfloor>tau / of_int step + 1 / 2\<rfloor>" using tau(1) sp by simp
  have "tau / of_int step < of_int (int (n - 1))"
  proof -
    have "tau < of_int (int (n - 1) * step)" using tau(2) n(2) by linarith
    then show ?thesis using sp by (simp add: field_simps)
  qed
  then have "tau / of_int step + 1 / 2 < of_int (int (n - 1)) + 1" by simp
  then have "\<lfloor>tau / of_int step + 1 / 2\<rfloor> < int (n - 1) + 1" by (subst floor_less_iff) simp
  then have k0n: "k0 < n" using n(1) fl_nonneg unfolding k0_def by linarith
  have k0r: "real k0 = of_int \<lfloor>tau / of_int step + 1 / 2\<rfloor>"
    using fl_nonneg by (simp add: k0_def)
  have "real k0 \<le> tau / of_int step + 1 / 2" "tau / of_int step + 1 / 2 < real k0 + 1"
    unfolding k0r by linarith+
  then have "real k0 * of_int step - tau \<le> of_int step / 2"
            "- (of_int step / 2) \<le> real k0 * of_int step - tau"
    using sp by (simp_all add: field_simps)
  then have "\<bar>real k0 * of_int step - tau\<bar> \<le> of_int step / 2" by linarith
  then have "\<bar>of_int (int k0 * step) - tau\<bar> \<le> of_int step / 2" by simp
  with nth [OF k0n] ind(3) k0n have bound: "?ds ! ind \<le> of_int step / 2" by fastforce
  have fixed: "ts ! ind = t" if on: "t = day_start t + of_int (int k * step)" for k
  proof -
    from on have tk: "tau = of_int (int k * step)" by (simp add: tau_def)
    have "k < n"
    proof (rule ccontr)
      assume "\<not> k < n"
      then have "int (n - 1) \<le> int k" by simp
      then have "int (n - 1) * step \<le> int k * step" using step by (simp add: mult_right_mono)
      with n(2) have "(86400 :: real) \<le> of_int (int k * step)" by linarith
      with tk tau(2) show False by simp
    qed
    from nth [OF this] tk have "?ds ! k = 0" by simp
    with ind(3) \<open>k < n\<close> have "?ds ! ind \<le> 0" by fastforce
    with val have "\<bar>ts ! ind - t\<bar> \<le> 0" by simp
    then show ?thesis by simp
  qed
  from ind(1) val bound fixed show ?thesis by auto
qed

text \<open>
  C6. For a positive step, \<open>nearest_step\<close> returns a pair of time stamps, each within
  \<open>step / 2\<close> seconds of its input; an input that already lies a whole number of steps
  after the midnight of its own day is returned unchanged.
\<close>

theorem nearest_step_aligned:
  assumes "0 < step"
  shows "\<exists>a1 a2. nearest_step t1 t2 step = Inr (a1, a2) \<and>
           \<bar>a1 - t1\<bar> \<le> of_int step / 2 \<and> \<bar>a2 - t2\<bar> \<le> of_int step / 2 \<and>
           (\<forall>k. t1 = day_start t1 + of_int (int k * step) \<longrightarrow> a1 = t1) \<and>
           (\<forall>k. t2 = day_start t2 + of_int (int k * step) \<longrightarrow> a2 = t2)"
proof (cases "t1 = t2")
  case True
  with assms show ?thesis by (simp add: nearest_step_def)
next
  case False
  from py_range0_pos [OF assms] obtain n where
    r: "py_range0 (86400 + step) step = Inr (map (\<lambda>k. int k * step) [0..<n])" and
    n: "0 < n" "86400 \<le> int (n - 1) * step" by blast
  let ?ss = "map (\<lambda>k. int k * step) [0..<n]"
  let ?t1s = "map (\<lambda>s. day_start t1 + of_int s) ?ss"
  let ?t2s = "map (\<lambda>s. day_start t2 + of_int s) ?ss"
  from grid_snap [OF assms n refl refl, of t1] obtain ind1 where
    i1: "np_argmin (map abs (map (\<lambda>u. u - t1) ?t1s)) = Inr ind1"
        "\<bar>?t1s ! ind1 - t1\<bar> \<le> of_int step / 2"
        "\<forall>k. t1 = day_start t1 + of_int (int k * step) \<longrightarrow> ?t1s ! ind1 = t1" by blast
  from grid_snap [OF assms n refl refl, of t2] obtain ind2 where
    i2: "np_argmin (map abs (map (\<lambda>u. u - t2) ?t2s)) = Inr ind2"
        "\<bar>?t2s ! ind2 - t2\<bar> \<le> of_int step / 2"
        "\<forall>k. t2 = day_start t2 + of_int (int k * step) \<longrightarrow> ?t2s ! ind2 = t2" by blast
  have "nearest_step t1 t2 step = Inr (?t1s ! ind1, ?t2s ! ind2)"
    using False r i1(1) i2(1) by (simp add: nearest_step_def Let_def del: map_map)
  with i1 i2 show ?thesis by blast
qed


lemma upt3: "[0..<3] = [0, 1, 2]"
  by (simp add: upt_rec)

theorem nearest_step_aligned_witness:
  "(0::int) < 43200 \<and> nearest_step 100 43200 43200 = Inr (0, 43200) \<and>
   \<bar>(0::real) - 100\<bar> \<le> of_int 43200 / 2 \<and> (43200::real) = day_start 43200 + of_int (int 1 * 43200)"
proof -
  have ev: "nearest_step 100 43200 43200 = Inr (0, 43200)"
    by (simp add: nearest_step_def py_range0_def day_start_def upt3 Let_def)
  from nearest_step_aligned [of 43200 100 43200] obtain a1 a2 where
    "nearest_step 100 43200 43200 = Inr (a1, a2)" "\<bar>a1 - 100\<bar> \<le> of_int 43200 / 2"
    by auto
  with ev show ?thesis by (simp add: day_start_def)
qed

section \<open>The windower\<close>

lemma window_filter:
  fixes d s :: real
  assumes s: "0 < s" and d: "0 \<le> d"
  shows "filter (\<lambda>i. real i * s \<le> d) [0..<nat \<lceil>(d + s) / s\<rceil>] = [0..<nat \<lfloor>d / s\<rfloor> + 1]"
proof -
  let ?m = "nat \<lceil>(d + s) / s\<rceil>" and ?n = "nat \<lfloor>d / s\<rfloor> + 1"
  have fl: "0 \<le> \<lfloor>d / s\<rfloor>" using s d by simp
  have iff: "real i * s \<le> d \<longleftrightarrow> i < ?n" for i
  proof -
    have "real i * s \<le> d \<longleftrightarrow> real i \<le> d / s" using s by (simp add: field_simps)
    also have "\<dots> \<longleftrightarrow> int i \<le> \<lfloor>d / s\<rfloor>" by (simp add: le_floor_iff)
    also have "\<dots> \<longleftrightarrow> i < ?n" using fl by linarith
    finally show ?thesis .
  qed
  have "(d + s) / s = d / s + 1" using s by (simp add: field_simps)
  then have "\<lceil>(d + s) / s\<rceil> = \<lceil>d / s\<rceil> + 1" by simp
  moreover have "\<lfloor>d / s\<rfloor> \<le> \<lceil>d / s\<rceil>" by (rule floor_le_ceiling)
  ultimately have le: "?n \<le> ?m" using fl by linarith
  have split: "[0..<?m] = [0..<?n] @ [?n..<?m]"
    using le by (metis le_add_diff_inverse upt_add_eq_append zero_le)
  have "filter (\<lambda>i. real i * s \<le> d) [0..<?m] = filter (\<lambda>i. i < ?n) [0..<?m]"
    by (simp add: iff)
  also have "\<dots> = filter (\<lambda>i. i < ?n) ([0..<?n] @ [?n..<?m])"
    using split by simp
  also have "\<dots> = [0..<?n]"
    by (simp add: filter_empty_conv)
  finally show ?thesis .
qed

lemma window_count_le:
  fixes d s :: real
  assumes s: "0 < s" and d: "0 \<le> d"
  shows "nat \<lfloor>d / s\<rfloor> + 1 \<le> nat \<lceil>(d + s) / s\<rceil>"
proof -
  have fl: "0 \<le> \<lfloor>d / s\<rfloor>" using s d by simp
  have "(d + s) / s = d / s + 1" using s by (simp add: field_simps)
  then have "\<lceil>(d + s) / s\<rceil> = \<lceil>d / s\<rceil> + 1" by simp
  moreover have "\<lfloor>d / s\<rfloor> \<le> \<lceil>d / s\<rceil>" by (rule floor_le_ceiling)
  ultimately show ?thesis using fl by linarith
qed

lemma map_nth_prefix: "n \<le> m \<Longrightarrow> map (\<lambda>i. map g [0..<m] ! i) [0..<n] = map g [0..<n]"
  by (rule nth_equalityI) auto

lemma main_window_times_count:
  assumes "0 < step" and "cc_len \<le> t2 - t1"
  shows "main_window_times t1 t2 cc_len step =
           Inr (map (\<lambda>k. t1 + real k * of_int step) [0..<nat \<lfloor>(t2 - t1 - cc_len) / of_int step\<rfloor> + 1],
                map (\<lambda>k. t1 + real k * of_int step + cc_len) [0..<nat \<lfloor>(t2 - t1 - cc_len) / of_int step\<rfloor> + 1])"
proof -
  let ?s = "of_int step :: real" and ?d = "t2 - t1 - cc_len"
  let ?m = "nat \<lceil>(?d + ?s) / ?s\<rceil>" and ?n = "nat \<lfloor>?d / ?s\<rfloor> + 1"
  let ?t_len = "map (\<lambda>k. real k * ?s) [0..<?m]"
  let ?t_start = "map (\<lambda>t. t1 + t) ?t_len" and ?t_end = "map (\<lambda>t. t1 + t + cc_len) ?t_len"
  have s: "0 < ?s" and d: "0 \<le> ?d" using assms by simp_all
  have ar: "np_arange0 (?d + ?s) ?s = Inr ?t_len" using s by (simp add: np_arange0_def)
  have "filter (\<lambda>i. ?t_end ! i \<le> t2) [0..<length ?t_end] = filter (\<lambda>i. real i * ?s \<le> ?d) [0..<?m]"
    by (rule filter_cong) (auto simp: algebra_simps)
  also have "\<dots> = [0..<?n]" using s d by (rule window_filter)
  finally have ind: "filter (\<lambda>i. ?t_end ! i \<le> t2) [0..<length ?t_end] = [0..<?n]" .
  have le: "?n \<le> ?m" using s d by (rule window_count_le)
  have st: "map (\<lambda>i. ?t_start ! i) [0..<?n] = map (\<lambda>k. t1 + real k * ?s) [0..<?n]"
    using map_nth_prefix [OF le, of "\<lambda>k. t1 + real k * ?s"] by (simp add: o_def)
  have en: "map (\<lambda>i. ?t_end ! i) [0..<?n] = map (\<lambda>k. t1 + real k * ?s + cc_len) [0..<?n]"
    using map_nth_prefix [OF le, of "\<lambda>k. t1 + real k * ?s + cc_len"] by (simp add: o_def)
  have "main_window_times t1 t2 cc_len step =
          Inr (map (\<lambda>i. ?t_start ! i) [0..<?n], map (\<lambda>i. ?t_end ! i) [0..<?n])"
    unfolding main_window_times_def ar Let_def using ind by (simp del: map_map)
  with st en show ?thesis by (simp del: map_map)
qed

lemma main_window_ends:
  assumes "0 < step" and "cc_len \<le> t2 - t1" and "k < nat \<lfloor>(t2 - t1 - cc_len) / of_int step\<rfloor> + 1"
  shows "t1 + real k * of_int step + cc_len \<le> t2"
proof -
  let ?s = "of_int step :: real" and ?d = "t2 - t1 - cc_len"
  have s: "0 < ?s" and d: "0 \<le> ?d" using assms by simp_all
  have fl: "0 \<le> \<lfloor>?d / ?s\<rfloor>" using s d by simp
  from assms(3) fl have "int k \<le> \<lfloor>?d / ?s\<rfloor>" by linarith
  then have "real k \<le> ?d / ?s" by (simp add: le_floor_iff)
  then have "real k * ?s \<le> ?d" using s by (simp add: field_simps)
  then show ?thesis by simp
qed


text \<open>
  C7. For a positive step and a span \<open>[t1, t2]\<close> that holds at least one window
  (\<open>cc_len \<le> t2 - t1\<close>), the windower's time bounds are exactly
  \<open>\<lfloor>(t2 - t1 - cc_len) / step\<rfloor> + 1\<close> pairs: window \<open>k\<close> starts at \<open>t1 + k * step\<close> and ends at
  \<open>t1 + k * step + cc_len\<close>, which is at most \<open>t2\<close>. Slicing fails with \<open>EmptyStream\<close> exactly
  when one of the two stations yields no window.
\<close>

theorem windower_window_count:
  assumes "0 < step" and "cc_len \<le> t2 - t1"
  shows "main_window_times t1 t2 cc_len step =
           Inr (map (\<lambda>k. t1 + real k * of_int step)
                  [0..<nat \<lfloor>(t2 - t1 - cc_len) / of_int step\<rfloor> + 1],
                map (\<lambda>k. t1 + real k * of_int step + cc_len)
                  [0..<nat \<lfloor>(t2 - t1 - cc_len) / of_int step\<rfloor> + 1]) \<and>
         (\<forall>k < nat \<lfloor>(t2 - t1 - cc_len) / of_int step\<rfloor> + 1.
            t1 + real k * of_int step + cc_len \<le> t2) \<and>
         (main_window_waveforms slide source receiver cc_len step = Inl EmptyStream \<longleftrightarrow>
            slide source cc_len step = [] \<or> slide receiver cc_len step = [])"
proof (intro conjI allI impI)
  show "main_window_times t1 t2 cc_len step =
           Inr (map (\<lambda>k. t1 + real k * of_int step)
                  [0..<nat \<lfloor>(t2 - t1 - cc_len) / of_int step\<rfloor> + 1],
                map (\<lambda>k. t1 + real k * of_int step + cc_len)
                  [0..<nat \<lfloor>(t2 - t1 - cc_len) / of_int step\<rfloor> + 1])"
    using assms by (rule main_window_times_count)
next
  fix k assume "k < nat \<lfloor>(t2 - t1 - cc_len) / of_int step\<rfloor> + 1"
  with assms show "t1 + real k * of_int step + cc_len \<le> t2" by (rule main_window_ends)
next
  show "main_window_waveforms slide source receiver cc_len step = Inl EmptyStream \<longleftrightarrow>
          slide source cc_len step = [] \<or> slide receiver cc_len step = []"
    by (simp add: main_window_waveforms_def Let_def)
qed

theorem windower_window_count_witness:
  "(0::int) < 1800 \<and> (3600::real) \<le> 7200 - 0 \<and>
   main_window_times 0 7200 3600 1800 = Inr ([0, 1800, 3600], [3600, 5400, 7200]) \<and>
   main_window_waveforms (\<lambda>tr w s. if w \<le> real (length (data tr)) then [tr] else [])
     (segment 0 [1, 2]) (segment 0 [1, 2, 3]) 3600 1800 = Inl EmptyStream"
proof -
  have fl: "nat \<lfloor>(7200 - 0 - 3600) / real_of_int 1800\<rfloor> + 1 = 3" by simp
  from windower_window_count [of 1800 3600 7200 0
      "\<lambda>tr w s. if w \<le> real (length (data tr)) then [tr] else []"
      "segment 0 [1, 2]" "segment 0 [1, 2, 3]"]
  show ?thesis unfolding fl by (simp add: upt3 segment_def)
qed

subsection \<open>Deleting the windows whose start times differ\<close>

text \<open>
  C8. The claim: for every pair of sliced frame sequences the removal step leaves both
  with equally many frames, start times equal index by index, and never fails with an
  access out of range. The loop runs over \<^verbatim>\<open>range(len(source_slice))\<close> and reads
  \<^verbatim>\<open>receiver_slice[ii]\<close> with no look at the receiver's length: with two source windows
  and one receiver window it raises \<^verbatim>\<open>IndexError\<close>, and with one source window and two
  receiver windows it returns one frame against two.
\<close>

theorem delete_mismatched_unequal_counts:
  "main_delete_mismatched [segment 0 [1, 2], segment 1800 [3, 4]] [segment 0 [5, 6]] =
     Inl IndexError \<and>
   main_delete_mismatched [segment 0 [1, 2]] [segment 0 [5, 6], segment 1800 [7, 8]] =
     Inr ([segment 0 [1, 2]], [segment 0 [5, 6], segment 1800 [7, 8]])"
  by (simp add: main_delete_mismatched_def py_index_def py_position_def segment_def upt_rec)

section \<open>Spectral whitening\<close>

lemma upt2: "[0..<2] = [0, 1]"
  by (simp add: upt_rec)

lemma upt4: "[0..<4] = [0, 1, 2, 3]"
  by (simp add: upt_rec)

lemma dft_impulse: "dft [c, 0, 0, 0] = [c, c, c, c]"
  by (simp add: dft_def upt4)

lemma unit_phase_real: "unit_phase 1 = 1" "unit_phase (- 1) = - 1"
  by (simp_all add: unit_phase_def cis_Arg)

text \<open>
  C1. The claim: for every real frame matrix, each row of the whitened spectrum is
  conjugate symmetric. The code's last statement for a matrix, under the comment
  "Hermitian symmetry (because the input is real)", mirrors with \<^verbatim>\<open>[::-1]\<close>, which on a
  matrix reverses the rows and leaves the bins of each row in place (the rank-one branch
  uses the same expression, where it does reverse the bins). For the two frames
  \<open>1, 0, 0, 0\<close> and \<open>-1, 0, 0, 0\<close>, sampled at 1 s and whitened between 0.1 and 0.4 Hz, the
  first row of the result has bin 1 equal to 1 and bin 3 equal to \<open>-1\<close>: its negative
  half is the mirror of the other frame.
\<close>

theorem whiten_matrix_not_hermitian:
  "whiten (Arr2 4 [[1, 0, 0, 0], [- 1, 0, 0, 0]]) 1 (1 / 10) (2 / 5) True None =
     Inr (Arr2 4 [[0, 1, 0, - 1], [0, - 1, 0, 1]]) \<and>
   \<not> hermitian 4 [0, 1, 0, - 1]"
proof
  show "whiten (Arr2 4 [[1, 0, 0, 0], [- 1, 0, 0, 0]]) 1 (1 / 10) (2 / 5) True None =
     Inr (Arr2 4 [[0, 1, 0, - 1], [0, - 1, 0, 1]])"
    apply (simp add: whiten_def next_fast_len_def fftfreq_def py_slice_to_def py_bound_def upt4
        upt2 pad_def Let_def np_fft_def resize_def dft_impulse)
    apply (simp add: whiten_axis1_def imul_slice_def py_bound_def np_linspace_def taper_cols_def
        py_slice_def bc_def assign_cols_def np_assign_def unit_phase_real assign_cols_from_def
        np_assign_from_def Let_def)
    done
  show "\<not> hermitian 4 [0, 1, 0, - 1]"
    by (simp add: hermitian_def upt_rec)
qed

subsection \<open>The rank-one branch\<close>

text \<open>
  For a single frame the same statements do give a conjugate-symmetric spectrum: the
  bins from \<open>high\<close> on are zeroed, and the mirror of bins \<open>1 .. Nfft div 2 - 1\<close>,
  conjugated and reversed, is written over the last \<open>Nfft div 2 - 1\<close> bins. The band
  indices come from a frequency vector of \<open>Nfft div 2\<close> entries, so \<open>high\<close> is at most
  \<open>Nfft div 2\<close>.
\<close>

lemma py_bound_le: "py_bound n i \<le> n"
  by (auto simp: py_bound_def)

lemma length_np_assign: "np_assign xs lo hi v = Inr ys \<Longrightarrow> length ys = length xs"
proof -
  assume a: "np_assign xs lo hi v = Inr ys"
  let ?a = "py_bound (length xs) lo" and ?b = "py_bound (length xs) hi"
  have "?a \<le> length xs" "?b \<le> length xs" by (rule py_bound_le)+
  with a show ?thesis
    by (auto simp: np_assign_def Let_def split: if_splits)
qed

lemma length_imul_slice: "length (imul_slice xs lo hi c) = length xs"
proof -
  let ?a = "py_bound (length xs) lo" and ?b = "py_bound (length xs) hi"
  have "?a \<le> length xs" "?b \<le> length xs" by (rule py_bound_le)+
  then show ?thesis by (auto simp: imul_slice_def Let_def)
qed

lemma imul_slice_zero_tail:
  assumes "0 \<le> high" and "nat high \<le> k" and "k < length xs"
  shows "imul_slice xs high (int (length xs) + 1) 0 ! k = 0"
proof -
  let ?n = "length xs" and ?h = "nat high"
  let ?ys = "map (\<lambda>z. z * (0::complex)) (drop ?h xs)"
  have hn: "?h \<le> ?n" using assms by linarith
  have a: "py_bound ?n high = ?h" using assms(1) hn by (simp add: py_bound_def)
  have b: "py_bound ?n (int ?n + 1) = ?n" by (simp add: py_bound_def)
  have eq: "imul_slice xs high (int ?n + 1) 0 = take ?h xs @ ?ys"
    using hn by (simp add: imul_slice_def a b Let_def)
  have "length (take ?h xs) = ?h" using hn by simp
  then have "(take ?h xs @ ?ys) ! k = ?ys ! (k - ?h)"
    using assms(2) by (simp add: nth_append)
  also have "\<dots> = 0" using assms(2,3) by simp
  finally show ?thesis using eq by simp
qed

lemma whiten_axis0_hermitian:
  assumes res: "whiten_axis0 low left right high Nfft F = Inr F'"
    and len: "length F = Nfft" and h0: "0 \<le> high" and h1: "high \<le> int (Nfft div 2)"
  shows "hermitian Nfft F'"
proof -
  define m where "m = Nfft div 2"
  have mb: "2 * m \<le> Nfft" "Nfft \<le> 2 * m + 1" by (simp_all add: m_def)
  have hm: "nat high \<le> m" using h0 h1 by (simp add: m_def)
  from res obtain F2 F3 F4 v2 v4 where
    s2: "np_assign (imul_slice F 0 low 0) low left v2 = Inr F2" and
    s3: "np_assign F2 left right (map unit_phase (py_slice F2 left right)) = Inr F3" and
    s4: "np_assign F3 right high v4 = Inr F4" and
    fin: "np_assign_from (imul_slice F4 high (int Nfft + 1) 0) (- int (Nfft div 2) + 1)
            (rev (map cnj (py_slice (imul_slice F4 high (int Nfft + 1) 0) 1 (int (Nfft div 2))))) =
          Inr F'"
    unfolding whiten_axis0_def Let_def by (simp split: sum.splits)
  have F4: "length F4 = Nfft"
    using length_np_assign [OF s2] length_np_assign [OF s3] length_np_assign [OF s4] len
    by (simp add: length_imul_slice)
  define F5 where "F5 = imul_slice F4 high (int Nfft + 1) 0"
  have F5: "length F5 = Nfft" by (simp add: F5_def length_imul_slice F4)
  have tail: "F5 ! k = 0" if "m \<le> k" "k < Nfft" for k
  proof -
    from that hm have "nat high \<le> k" by linarith
    from imul_slice_zero_tail [OF h0 this, of F4] that F4 show ?thesis by (simp add: F5_def)
  qed
  define S where "S = py_slice F5 1 (int m)"
  have fin': "np_assign F5 (1 - int m) (int Nfft) (rev (map cnj S)) = Inr F'"
    using fin F5 by (simp add: F5_def S_def m_def np_assign_from_def)
  show ?thesis
  proof (cases "2 \<le> m")
    case False
    have "Nfft \<noteq> 3"
    proof
      assume n3: "Nfft = 3"
      then have "m = 1" by (simp add: m_def)
      then have "S = []" by (simp add: S_def py_slice_def py_bound_def)
      with fin' n3 F5 \<open>m = 1\<close> show False
        by (simp add: np_assign_def py_bound_def)
    qed
    with False mb have "Nfft \<le> 2" by linarith
    then have "filter (\<lambda>k. 2 * k < Nfft) [1..<Nfft] = []"
      by (auto simp: filter_empty_conv)
    then show ?thesis by (simp add: hermitian_def)
  next
    case True
    have b1: "py_bound Nfft 1 = 1" using True mb by (simp add: py_bound_def)
    have bm: "py_bound Nfft (int m) = m" using mb by (simp add: py_bound_def)
    have S: "S = take (m - 1) (drop 1 F5)"
      using F5 b1 bm by (simp add: S_def py_slice_def Let_def)
    have lenS: "length S = m - 1" unfolding S using F5 mb by simp
    have nthS: "S ! i = F5 ! (Suc i)" if "i < m - 1" for i
      unfolding S using that F5 mb by simp
    have a: "py_bound Nfft (1 - int m) = Nfft - m + 1"
    proof -
      have "1 - int m < 0" using True by linarith
      moreover have "nat (int Nfft + (1 - int m)) = Nfft - m + 1" using mb by linarith
      ultimately show ?thesis by (simp add: py_bound_def)
    qed
    have b: "py_bound Nfft (int Nfft) = Nfft" by (simp add: py_bound_def)
    define P where "P = take (Nfft - m + 1) F5"
    define V where "V = rev (map cnj S)"
    have lenP: "length P = Nfft - m + 1"
    proof -
      have "Nfft - m + 1 \<le> Nfft" using True mb by linarith
      then show ?thesis using F5 by (simp add: P_def)
    qed
    have nthP: "P ! i = F5 ! i" if "i < Nfft - m + 1" for i
      using that by (simp add: P_def)
    have lenV: "length V = m - 1" using lenS by (simp add: V_def)
    have F'PV: "F' = P @ V"
    proof -
      have w: "Nfft - (Nfft - m + 1) = m - 1" using True mb by linarith
      have d: "Nfft - m + 1 + (m - 1) = Nfft" using True mb by linarith
      have "np_assign F5 (1 - int m) (int Nfft) V = Inr (P @ V @ drop Nfft F5)"
        unfolding np_assign_def Let_def F5 a b w lenV P_def d by simp
      with fin' F5 show ?thesis by (simp add: V_def)
    qed
    have nthV: "V ! j = cnj (F5 ! (m - 1 - j))" if j: "j < m - 1" for j
    proof -
      have "V ! j = map cnj S ! (length (map cnj S) - Suc j)"
        unfolding V_def using j lenS by (simp add: rev_nth)
      also have "length (map cnj S) - Suc j = m - 2 - j" using lenS j by simp
      also have "map cnj S ! (m - 2 - j) = cnj (S ! (m - 2 - j))"
        using lenS j by simp
      also have "S ! (m - 2 - j) = F5 ! Suc (m - 2 - j)"
        using j by (intro nthS) linarith
      also have "Suc (m - 2 - j) = m - 1 - j" using j by linarith
      finally show ?thesis .
    qed
    have sym: "F' ! k = cnj (F' ! (Nfft - k))" if k1: "1 \<le> k" and k2: "2 * k < Nfft" for k
    proof -
      have km: "k \<le> m" using k2 mb by linarith
      have kl: "k < Nfft - m + 1" using km mb by linarith
      have low: "F' ! k = F5 ! k"
        unfolding F'PV using kl lenP nthP by (simp add: nth_append)
      show ?thesis
      proof (cases "k \<le> m - 1")
        case True
        define j where "j = Nfft - k - (Nfft - m + 1)"
        have j: "j = m - 1 - k" using True k1 k2 mb unfolding j_def by linarith
        have ge: "\<not> Nfft - k < Nfft - m + 1" using True k1 k2 mb by linarith
        have jl: "j < m - 1" using j k1 True by linarith
        have "F' ! (Nfft - k) = V ! j"
          unfolding F'PV j_def using ge lenP by (simp add: nth_append)
        also have "\<dots> = cnj (F5 ! (m - 1 - j))" using jl by (rule nthV)
        also have "m - 1 - j = k" using j True k1 by linarith
        finally show ?thesis using low by simp
      next
        case False
        with km have keq: "k = m" by linarith
        with k2 mb have odd: "Nfft = 2 * m + 1" by linarith
        have z1: "F5 ! m = 0" using tail [of m] odd by simp
        have z2: "F5 ! (m + 1) = 0" using tail [of "m + 1"] odd \<open>2 \<le> m\<close> by simp
        have "F' ! (Nfft - k) = F5 ! (m + 1)"
        proof -
          have e: "Nfft - k = m + 1" using keq odd by linarith
          have l: "m + 1 < Nfft - m + 1" using odd by linarith
          show ?thesis unfolding F'PV e using l lenP nthP by (simp add: nth_append)
        qed
        with z1 z2 low keq show ?thesis by simp
      qed
    qed
    show ?thesis
      unfolding hermitian_def by (auto simp: list_all_iff intro: sym)
  qed
qed

text \<open>The single frame \<open>1, 0, 0, 0\<close>, whitened with the parameters of the matrix above.\<close>

lemma whiten_axis0_impulse:
  "whiten_axis0 1 1 1 2 4 [1, 1, 1, 1] = Inr [0, 1, 0, 1]"
  by (simp add: whiten_axis0_def imul_slice_def py_bound_def np_linspace_def
      py_slice_def bc_def np_assign_def unit_phase_real np_assign_from_def Let_def)

lemma whiten_vector_impulse:
  "whiten (Arr1 [1, 0, 0, 0]) 1 (1 / 10) (2 / 5) True None = Inr (Arr1 [0, 1, 0, 1])"
proof -
  have "whiten_axis0 1 1 1 2 (Suc (Suc (Suc (Suc 0)))) [1, 1, 1, 1] = Inr [0, 1, 0, 1]"
    using whiten_axis0_impulse by (simp add: eval_nat_numeral)
  then show ?thesis
    by (simp add: whiten_def next_fast_len_def fftfreq_def py_slice_to_def py_bound_def upt4
        upt2 pad_def Let_def np_fft_def resize_def dft_impulse)
qed

lemma whiten_vector_impulse_hermitian: "hermitian 4 [0, 1, 0, 1]"
  using whiten_axis0_hermitian [OF whiten_axis0_impulse] by simp

text \<open>A matrix of four columns and no row is whitened to one of four columns and no row.\<close>

lemma whiten_rowless:
  "whiten (Arr2 4 []) 1 (1 / 10) (2 / 5) True None = Inr (Arr2 4 [])"
  apply (simp add: whiten_def next_fast_len_def fftfreq_def py_slice_to_def py_bound_def upt4
        upt2 pad_def Let_def np_fft_def)
  apply (simp add: whiten_axis1_def np_linspace_def taper_cols_def assign_cols_def
        assign_cols_from_def Let_def)
  done

section \<open>The correlation engine\<close>

subsection \<open>The deconvolution denominator\<close>

lemma moving_average_pair: "moving_average 20 [c, c] = [c, c]"
  by (simp add: moving_average_def upt2)

lemma idft_pair: "idft [a, b] = [(a + b) / 2, (a - b) / 2]"
  by (simp add: idft_def upt2)

lemma deconv_spectrum_pair:
  "cross_spectrum boxcar_smooth (Arr2 2 [[1, 1]]) (Arr2 2 [[2, 2]]) ''deconv'' =
     Inr (Arr2 2 [[200 / 401, 200 / 401]])"
  by (simp add: cross_spectrum_def bc_matrix_def bc_dim_def bc_rows_def bc_def regulariser_def
      boxcar_smooth_def moving_average_pair np_idiv_def)

text \<open>
  C3. The claim: with the method \<^verbatim>\<open>deconv\<close> the product \<^verbatim>\<open>fft1 * conj(fft2)\<close> is divided by
  the smoothed squared magnitude of the second spectrum plus 0.01 times the row mean
  of the smoothed magnitude of the second spectrum. The code adds 0.01 times the row mean
  of the smoothed magnitude of the first spectrum (the \<^verbatim>\<open>coherence\<close> branch pairs each
  smoothed magnitude with the mean of the same spectrum). For a first spectrum of ones
  and a second of twos the quotient is \<open>2 / (4 + 0.01 * 1) = 200 / 401\<close>, where the claim's
  denominator gives \<open>2 / (4 + 0.01 * 2) = 100 / 201\<close>.
\<close>

theorem deconv_regulariser_first_spectrum:
  "correlate boxcar_smooth (Arr2 2 [[1, 1]]) (Arr2 2 [[2, 2]]) 0 None ''deconv'' =
     Inr (Arr2 1 [[200 / 401]]) \<and>
   (2::real) / (2 ^ 2 + 0.01 * 2) = 100 / 201"
proof
  show "correlate boxcar_smooth (Arr2 2 [[1, 1]]) (Arr2 2 [[2, 2]]) 0 None ''deconv'' =
     Inr (Arr2 1 [[200 / 401]])"
    apply (simp add: correlate_def deconv_spectrum_pair next_fast_len_def np_ifft_real_def
        resize_def idft_pair Let_def)
    apply (simp add: lag_indices_def np_round_def recentre_def py_slice_from_def py_slice_to_def
        py_bound_def np_take_cols_def recentre_width_def)
    done
  show "(2::real) / (2 ^ 2 + 0.01 * 2) = 100 / 201" by simp
qed

subsection \<open>Shapes through correlate\<close>

lemma sequence_all:
  assumes "\<And>x. x \<in> set xs \<Longrightarrow> \<exists>y. f x = Inr y \<and> P y"
  shows "\<exists>ys. sequence (map f xs) = Inr ys \<and> length ys = length xs \<and> list_all P ys"
  using assms
proof (induction xs)
  case Nil
  then show ?case by simp
next
  case (Cons x xs)
  from Cons.prems obtain y where y: "f x = Inr y" "P y" by auto
  from Cons obtain ys where ys: "sequence (map f xs) = Inr ys" "length ys = length xs" "list_all P ys"
    by auto
  with y show ?case by simp
qed

lemma sequence_error:
  "sequence (map f xs) = Inl e \<Longrightarrow> \<exists>x \<in> set xs. f x = Inl e"
  by (induction xs) (auto split: sum.splits)

lemma bc_length:
  assumes "length ys = length xs \<or> length ys = 1"
  shows "\<exists>v. bc f xs ys = Inr v \<and> length v = length xs"
  using assms by (auto simp: bc_def)

lemma bc_rows_rect:
  assumes A: "rect r c A" and B: "rect r cb B" and cb: "cb = c \<or> cb = 1"
  shows "\<exists>Q. bc_rows f A B = Inr Q \<and> rect r c Q"
proof -
  have len: "length A = length B" using A B by (simp add: rect_def)
  have "\<exists>ys. sequence (map (\<lambda>(a, b). bc f a b) (zip A B)) = Inr ys \<and>
          length ys = length (zip A B) \<and> list_all (\<lambda>row. length row = c) ys"
  proof (rule sequence_all)
    fix x assume xin: "x \<in> set (zip A B)"
    obtain a b where xab: "x = (a, b)" by (cases x)
    with xin have x: "x = (a, b)" "a \<in> set A" "b \<in> set B"
      by (auto dest: set_zip_leftD set_zip_rightD)
    with A B have "length a = c" "length b = cb" by (auto simp: rect_def list_all_iff)
    with cb bc_length [of b a f] x show "\<exists>y. (case x of (a, b) \<Rightarrow> bc f a b) = Inr y \<and> length y = c"
      by auto
  qed
  with len A show ?thesis by (auto simp: bc_rows_def rect_def)
qed

lemma rect_map: "rect r c M \<Longrightarrow> rect r c (map (map f) M)"
  by (auto simp: rect_def list_all_iff)

lemma bc_matrix_rect:
  assumes A: "rect r c A" and B: "rect r cb B" and cb: "cb = c \<or> cb = 1"
  shows "\<exists>Q. bc_matrix f c A cb B = Inr (Arr2 c Q) \<and> rect r c Q"
proof -
  from bc_rows_rect [OF A B cb, of f] obtain Q where
    Q: "bc_rows f A B = Inr Q" "rect r c Q" by auto
  moreover have "bc_dim c cb = Inr c" using cb by (auto simp: bc_dim_def)
  ultimately show ?thesis by (simp add: bc_matrix_def)
qed

lemma np_idiv_rect:
  assumes "rect r c P" and "rect r c D"
  shows "\<exists>Q. np_idiv (Arr2 c P) (Arr2 c D) = Inr (Arr2 c Q) \<and> rect r c Q"
proof -
  from bc_matrix_rect [OF assms, of "\<lambda>z r. z / of_real r"] obtain Q where
    Q: "bc_matrix (\<lambda>z r. z / of_real r) c P c D = Inr (Arr2 c Q)" "rect r c Q" by auto
  with assms(1) have "length Q = length P" by (simp add: rect_def)
  with Q show ?thesis by (simp add: np_idiv_def)
qed

lemma regulariser_rect:
  assumes "keeps_shape smooth r c" and "rect r c X"
  shows "\<exists>R. regulariser smooth (Arr2 c X) = Inr (Arr2 1 R) \<and> rect r 1 R"
proof -
  have "rect r c (map (map cmod) X)" using assms(2) by (rule rect_map)
  with assms(1) obtain M' where M': "smooth (Arr2 c (map (map cmod) X)) 20 = Arr2 c M'" "rect r c M'"
    by (auto simp: keeps_shape_def)
  then show ?thesis by (auto simp: regulariser_def rect_def list_all_iff)
qed

lemma cross_spectrum_rect:
  assumes A: "rect r c A" and B: "rect r c B"
    and sm: "method = ''deconv'' \<or> method = ''coherence'' \<Longrightarrow> keeps_shape smooth r c"
  shows "\<exists>Q. cross_spectrum smooth (Arr2 c A) (Arr2 c B) method = Inr (Arr2 c Q) \<and> rect r c Q"
proof -
  have B': "rect r c (map (map cnj) B)" using B by (rule rect_map)
  from bc_matrix_rect [OF A B', of "(*)"] obtain P where
    P: "bc_matrix (*) c A c (map (map cnj) B) = Inr (Arr2 c P)" "rect r c P" by auto
  show ?thesis
  proof (cases "method = ''deconv''")
    case True
    with sm have ks: "keeps_shape smooth r c" by simp
    from regulariser_rect [OF ks A] obtain R where
      R: "regulariser smooth (Arr2 c A) = Inr (Arr2 1 R)" "rect r 1 R" by auto
    have "rect r c (map (map cmod) B)" using B by (rule rect_map)
    with ks obtain S where S: "smooth (Arr2 c (map (map cmod) B)) 20 = Arr2 c S" "rect r c S"
      by (auto simp: keeps_shape_def)
    have "rect r c (map (map (\<lambda>v. v ^ 2)) S)" using S(2) by (rule rect_map)
    from bc_matrix_rect [OF this R(2), of "(+)"] obtain D where
      D: "bc_matrix (+) c (map (map (\<lambda>v. v ^ 2)) S) 1 R = Inr (Arr2 c D)" "rect r c D" by auto
    from np_idiv_rect [OF P(2) D(2)] obtain Q where
      Q: "np_idiv (Arr2 c P) (Arr2 c D) = Inr (Arr2 c Q)" "rect r c Q" by auto
    with True P R S D show ?thesis by (simp add: cross_spectrum_def)
  next
    case nd: False
    show ?thesis
    proof (cases "method = ''coherence''")
      case True
      with sm have ks: "keeps_shape smooth r c" by simp
      from regulariser_rect [OF ks A] obtain R1 where
        R1: "regulariser smooth (Arr2 c A) = Inr (Arr2 1 R1)" "rect r 1 R1" by auto
      from regulariser_rect [OF ks B] obtain R2 where
        R2: "regulariser smooth (Arr2 c B) = Inr (Arr2 1 R2)" "rect r 1 R2" by auto
      have "rect r c (map (map cmod) A)" using A by (rule rect_map)
      with ks obtain S1 where S1: "smooth (Arr2 c (map (map cmod) A)) 20 = Arr2 c S1" "rect r c S1"
        by (auto simp: keeps_shape_def)
      have "rect r c (map (map cmod) B)" using B by (rule rect_map)
      with ks obtain S2 where S2: "smooth (Arr2 c (map (map cmod) B)) 20 = Arr2 c S2" "rect r c S2"
        by (auto simp: keeps_shape_def)
      from bc_matrix_rect [OF S1(2) R1(2), of "(+)"] obtain D1 where
        D1: "bc_matrix (+) c S1 1 R1 = Inr (Arr2 c D1)" "rect r c D1" by auto
      from bc_matrix_rect [OF S2(2) R2(2), of "(+)"] obtain D2 where
        D2: "bc_matrix (+) c S2 1 R2 = Inr (Arr2 c D2)" "rect r c D2" by auto
      from np_idiv_rect [OF P(2) D1(2)] obtain Q1 where
        Q1: "np_idiv (Arr2 c P) (Arr2 c D1) = Inr (Arr2 c Q1)" "rect r c Q1" by auto
      from np_idiv_rect [OF Q1(2) D2(2)] obtain Q2 where
        Q2: "np_idiv (Arr2 c Q1) (Arr2 c D2) = Inr (Arr2 c Q2)" "rect r c Q2" by auto
      with True nd P R1 R2 S1 S2 D1 D2 Q1 show ?thesis by (simp add: cross_spectrum_def)
    next
      case False
      with nd P show ?thesis by (simp add: cross_spectrum_def)
    qed
  qed
qed

lemma cross_spectrum_rank_one:
  assumes "length xs = length ys" and "method \<noteq> ''deconv''" and "method \<noteq> ''coherence''"
  shows "cross_spectrum smooth (Arr1 xs) (Arr1 ys) method =
           Inr (Arr1 (map2 (\<lambda>a b. a * cnj b) xs ys))"
  using assms by (simp add: cross_spectrum_def bc_def zip_map2 case_prod_unfold)

lemma next_fast_len_ge: "target \<le> next_fast_len target"
proof (cases "find smooth5 [target..<2 * target]")
  case None
  then show ?thesis by (simp add: next_fast_len_def)
next
  case (Some m)
  then have "m \<in> set [target..<2 * target]"
    by (auto simp: find_Some_iff in_set_conv_nth)
  with Some show ?thesis by (simp add: next_fast_len_def)
qed

lemma length_resize: "length (resize n x) = n"
  by (simp add: resize_def)

lemma length_idft: "length (idft y) = length y"
  by (simp add: idft_def Let_def)

lemma np_ifft_real_rows:
  "1 \<le> n \<Longrightarrow>
   np_ifft_real (Arr2 c Q) n 1 = Inr (Arr2 n (map (\<lambda>row. map Re (idft (resize n row))) Q))"
  by (simp add: np_ifft_real_def)

lemma np_ifft_real_rank_one:
  "1 \<le> n \<Longrightarrow> np_ifft_real (Arr1 s) n 0 = Inr (Arr1 (map Re (idft (resize n s))))"
  by (simp add: np_ifft_real_def)

subsection \<open>What the concatenation and the mask select\<close>

lemma length_recentre: "length (recentre c Nt) = recentre_width (length c) Nt"
proof -
  have "py_bound (length c) (int (Nt div 2) + 1) \<le> length c" by (rule py_bound_le)
  then show ?thesis
    by (simp add: recentre_def recentre_width_def py_slice_from_def py_slice_to_def)
qed

lemma recentre_width_ge:
  assumes "Nt \<le> w"
  shows "Nt - 1 \<le> recentre_width w Nt"
proof (cases "2 \<le> Nt")
  case False
  then show ?thesis by simp
next
  case True
  define L where "L = nat (- ((- int Nt) div 2 + 1))"
  define h where "h = Nt div 2"
  have lo: "(- int Nt) div 2 + 1 = - int L" unfolding L_def using True by linarith
  have hL: "L + h + 1 = Nt" unfolding L_def h_def using True by linarith
  have b: "py_bound w (int h + 1) = h + 1"
    using hL assms by (simp add: py_bound_def)
  have a: "w - py_bound w (- int L) \<ge> L"
    using hL assms by (auto simp: py_bound_def)
  have "recentre_width w Nt = (w - py_bound w (- int L)) + (h + 1)"
    unfolding recentre_width_def lo using b by (simp add: h_def)
  with a hL show ?thesis by linarith
qed

lemma recentre_lag:
  assumes M0: "0 \<le> M" and M1: "M \<le> int (Nt div 2) - 1" and len: "Nt \<le> length c"
    and j: "j < 2 * nat M + 1"
  shows "recentre c Nt ! (nat (- M - ((- int Nt) div 2 + 1)) + j) =
           spec_lag_sample c (int j - M)"
proof -
  define n where "n = length c"
  define h where "h = Nt div 2"
  define L where "L = nat (- ((- int Nt) div 2 + 1))"
  define m where "m = nat M"
  have Nt2: "2 \<le> Nt" using M0 M1 by linarith
  have lo: "(- int Nt) div 2 + 1 = - int L" unfolding L_def using Nt2 by linarith
  have hL: "L + h + 1 = Nt" unfolding L_def h_def using Nt2 by linarith
  have M: "M = int m" using M0 by (simp add: m_def)
  have mh: "m + 1 \<le> h" using M1 M0 unfolding m_def h_def by linarith
  have mL: "m \<le> L"
  proof -
    have "h \<le> L + 1" unfolding L_def h_def using Nt2 by linarith
    with mh show ?thesis by linarith
  qed
  have hn: "h + 1 \<le> n" using hL len by (simp add: n_def)
  have Ln: "L < n" using hL len by (simp add: n_def)
  have jm: "j \<le> 2 * m" using j by (simp add: m_def)
  have a: "nat (- M - ((- int Nt) div 2 + 1)) = L - m"
    unfolding lo M using mL by linarith
  have b: "py_bound n (int h + 1) = h + 1" using hn by (simp add: py_bound_def)
  have rc: "recentre c Nt = drop (py_bound n (- int L)) c @ take (h + 1) c"
    unfolding recentre_def py_slice_from_def py_slice_to_def lo
    using b by (simp add: n_def h_def)
  show ?thesis
  proof (cases "L = 0")
    case True
    with mL jm have z: "m = 0" "j = 0" by simp_all
    have "py_bound n (- int L) = 0" using True by (simp add: py_bound_def)
    with rc have "recentre c Nt = c @ take (h + 1) c" by simp
    moreover have "0 < length c" using Ln unfolding n_def by linarith
    ultimately have "recentre c Nt ! 0 = c ! 0" by (simp add: nth_append)
    with a z True M show ?thesis by (simp add: spec_lag_sample_def)
  next
    case False
    have pb: "py_bound n (- int L) = n - L" using False Ln by (auto simp: py_bound_def)
    define P where "P = drop (n - L) c"
    have lenP: "length P = L" using Ln by (simp add: P_def n_def)
    have rc': "recentre c Nt = P @ take (h + 1) c" using rc pb by (simp add: P_def)
    define i where "i = L - m + j"
    show ?thesis
    proof (cases "i < L")
      case True
      have "recentre c Nt ! i = P ! i" unfolding rc' using True lenP by (simp add: nth_append)
      also have "\<dots> = c ! (n - L + i)" unfolding P_def using True Ln by (simp add: n_def)
      finally have lhs: "recentre c Nt ! i = c ! (n - L + i)" .
      have k: "int j - M = int i - int L" unfolding i_def M using mL by linarith
      have "(int i - int L) mod int n = (int i - int L + int n) mod int n" by simp
      also have "\<dots> = int i - int L + int n"
        using True Ln by (intro mod_pos_pos_trivial) linarith+
      finally have "nat ((int j - M) mod int n) = n - L + i"
        unfolding k using True Ln by linarith
      then have "spec_lag_sample c (int j - M) = c ! (n - L + i)"
        by (simp add: spec_lag_sample_def n_def)
      with lhs a show ?thesis by (simp add: i_def)
    next
      case ge: False
      have il: "i - L < h + 1" unfolding i_def using jm mh mL by linarith
      have "recentre c Nt ! i = take (h + 1) c ! (i - L)"
        unfolding rc' using ge lenP by (simp add: nth_append)
      also have "\<dots> = c ! (i - L)" using il by simp
      finally have lhs: "recentre c Nt ! i = c ! (i - L)" .
      have k: "int j - M = int (i - L)" unfolding i_def M using mL ge i_def by linarith
      have "int (i - L) mod int n = int (i - L)"
        using il hn by (intro mod_pos_pos_trivial) linarith+
      then have "nat ((int j - M) mod int n) = i - L" unfolding k by simp
      then have "spec_lag_sample c (int j - M) = c ! (i - L)"
        by (simp add: spec_lag_sample_def n_def)
      with lhs a show ?thesis by (simp add: i_def)
    qed
  qed
qed

lemma filter_upt_window:
  assumes ab: "a \<le> b" and bn: "b \<le> n"
    and P: "\<And>i. i < n \<Longrightarrow> P i \<longleftrightarrow> a \<le> i \<and> i < b"
  shows "filter P [0..<n] = [a..<b]"
proof -
  have split: "[0..<n] = [0..<a] @ [a..<b] @ [b..<n]"
  proof -
    have "[0..<n] = [0..<b] @ [b..<n]"
      using bn by (metis le_add_diff_inverse upt_add_eq_append zero_le)
    moreover have "[0..<b] = [0..<a] @ [a..<b]"
      using ab by (metis le_add_diff_inverse upt_add_eq_append zero_le)
    ultimately show ?thesis by simp
  qed
  have "filter P [0..<n] = filter (\<lambda>i. a \<le> i \<and> i < b) [0..<n]"
    by (rule filter_cong) (auto simp: P)
  also have "\<dots> = filter (\<lambda>i. a \<le> i \<and> i < b) ([0..<a] @ [a..<b] @ [b..<n])"
    using split by simp
  also have "\<dots> = [a..<b]"
    by (auto simp: filter_empty_conv filter_id_conv)
  finally show ?thesis .
qed

lemma lag_indices_window:
  assumes M0: "0 \<le> M" and M1: "M \<le> int (Nt div 2) - 1"
  shows "lag_indices Nt M = [nat (- M - ((- int Nt) div 2 + 1))..<nat (M - ((- int Nt) div 2 + 1)) + 1]"
    and "nat (M - ((- int Nt) div 2 + 1)) + 1 \<le> Nt - 1"
    and "nat (M - ((- int Nt) div 2 + 1)) + 1 - nat (- M - ((- int Nt) div 2 + 1)) = 2 * nat M + 1"
proof -
  let ?lo = "(- int Nt) div 2 + 1"
  let ?T = "nat (int (Nt div 2) - ?lo)"
  let ?a = "nat (- M - ?lo)" and ?b = "nat (M - ?lo) + 1"
  have lo: "?lo \<le> 1 - int (Nt div 2)" by linarith
  have half: "1 \<le> int (Nt div 2)" using M0 M1 by linarith
  have T: "int ?T = int (Nt div 2) - ?lo" using lo half by linarith
  have Tn: "?T = Nt - 1" by linarith
  have a: "int ?a = - M - ?lo" using M1 lo by linarith
  have b: "int ?b = M - ?lo + 1" using M0 M1 lo by linarith
  have ab: "?a \<le> ?b" using a b M0 by linarith
  have bT: "?b \<le> ?T" using b T M1 by linarith
  have "filter (\<lambda>i. \<bar>map (\<lambda>i. ?lo + int i) [0..<?T] ! i\<bar> \<le> M) [0..<?T] = [?a..<?b]"
  proof (rule filter_upt_window [OF ab bT])
    fix i assume i: "i < ?T"
    then have "map (\<lambda>i. ?lo + int i) [0..<?T] ! i = ?lo + int i" by simp
    moreover have "\<bar>?lo + int i\<bar> \<le> M \<longleftrightarrow> ?a \<le> i \<and> i < ?b" using a b by linarith
    ultimately show "\<bar>map (\<lambda>i. ?lo + int i) [0..<?T] ! i\<bar> \<le> M \<longleftrightarrow> ?a \<le> i \<and> i < ?b"
      by simp
  qed
  then show "lag_indices Nt M = [?a..<?b]" by (simp add: lag_indices_def Let_def)
  show "?b \<le> Nt - 1" using bT Tn by simp
  have "int (?b - ?a) = 2 * M + 1" using a b ab by linarith
  then show "?b - ?a = 2 * nat M + 1" using M0 by linarith
qed

lemma lag_indices_length:
  assumes "0 \<le> M" and "M \<le> int (Nt div 2) - 1"
  shows "length (lag_indices Nt M) = 2 * nat M + 1"
    and "list_all (\<lambda>i. i < Nt - 1) (lag_indices Nt M)"
proof -
  show "length (lag_indices Nt M) = 2 * nat M + 1"
    unfolding lag_indices_window(1) [OF assms] using lag_indices_window(3) [OF assms]
    by (simp only: length_upt)
  have "\<And>i. i \<in> set (lag_indices Nt M) \<Longrightarrow> i < Nt - 1"
    unfolding lag_indices_window(1) [OF assms] using lag_indices_window(2) [OF assms]
    by (simp only: set_upt atLeastLessThan_iff) linarith
  then show "list_all (\<lambda>i. i < Nt - 1) (lag_indices Nt M)"
    by (simp add: list_all_iff)
qed

lemma lag_indices_bound: "list_all (\<lambda>i. i < Nt - 1) (lag_indices Nt M)"
proof -
  have "nat (int (Nt div 2) - ((- int Nt) div 2 + 1)) = Nt - 1" by linarith
  then show ?thesis by (simp add: lag_indices_def Let_def list_all_iff)
qed

lemma lag_indices_centred:
  assumes M0: "0 \<le> M" and M1: "M \<le> int (Nt div 2) - 1" and len: "Nt \<le> length c"
  shows "map (\<lambda>i. recentre c Nt ! i) (lag_indices Nt M) = spec_centred_lags (nat M) c"
proof -
  let ?a = "nat (- M - ((- int Nt) div 2 + 1))"
  let ?b = "nat (M - ((- int Nt) div 2 + 1)) + 1"
  have w: "?b - ?a = 2 * nat M + 1" by (rule lag_indices_window(3) [OF M0 M1])
  then have "?b = 2 * nat M + 1 + ?a" by linarith
  then have "[?a..<?b] = map (\<lambda>j. j + ?a) [0..<2 * nat M + 1]"
    by (simp only: map_add_upt)
  then have "map (\<lambda>i. recentre c Nt ! i) (lag_indices Nt M) =
               map (\<lambda>j. recentre c Nt ! (?a + j)) [0..<2 * nat M + 1]"
    unfolding lag_indices_window(1) [OF M0 M1] by (simp add: add.commute)
  also have "\<dots> = map (\<lambda>j. spec_lag_sample c (int j - M)) [0..<2 * nat M + 1]"
    by (rule map_cong [OF refl]) (simp only: set_upt atLeastLessThan_iff recentre_lag [OF M0 M1 len])
  finally show ?thesis using M0 by (simp add: spec_centred_lags_def)
qed

lemma lag_indices_all:
  assumes "int (Nt div 2) \<le> M"
  shows "lag_indices Nt M = [0..<Nt - 1]"
proof -
  let ?lo = "(- int Nt) div 2 + 1"
  have T: "nat (int (Nt div 2) - ?lo) = Nt - 1" by linarith
  have "\<bar>map (\<lambda>i. ?lo + int i) [0..<Nt - 1] ! i\<bar> \<le> M" if i: "i < Nt - 1" for i
  proof -
    have "map (\<lambda>i. ?lo + int i) [0..<Nt - 1] ! i = ?lo + int i" using i by simp
    moreover have "\<bar>?lo + int i\<bar> \<le> M" using i assms by linarith
    ultimately show ?thesis by simp
  qed
  then have "filter (\<lambda>i. \<bar>map (\<lambda>i. ?lo + int i) [0..<Nt - 1] ! i\<bar> \<le> M) [0..<Nt - 1] =
      [0..<Nt - 1]"
    by (simp add: filter_id_conv)
  then show ?thesis by (simp add: lag_indices_def Let_def T)
qed

subsection \<open>The rows that correlate returns\<close>

lemma correlate_rows:
  assumes A: "rect r Nt A" and B: "rect r Nt B"
    and sm: "method = ''deconv'' \<or> method = ''coherence'' \<Longrightarrow> keeps_shape smooth r Nt"
    and n: "Nfft_arg = None \<or> (\<exists>n. Nfft_arg = Some n \<and> Nt \<le> n)" and Nt1: "1 \<le> Nt"
    and Nfft: "Nfft = (case Nfft_arg of None \<Rightarrow> next_fast_len Nt | Some n \<Rightarrow> n)"
    and ind: "ind = lag_indices Nt (np_round maxlag)"
  shows "\<exists>S. cross_spectrum smooth (Arr2 Nt A) (Arr2 Nt B) method = Inr (Arr2 Nt S) \<and>
             rect r Nt S \<and>
             correlate smooth (Arr2 Nt A) (Arr2 Nt B) maxlag Nfft_arg method =
               Inr (Arr2 (length ind)
                     (map (\<lambda>row. map (\<lambda>i. recentre (map Re (idft (resize Nfft row))) Nt ! i) ind)
                        S))"
proof -
  have le: "Nt \<le> Nfft" using n next_fast_len_ge [of Nt] unfolding Nfft by (auto split: option.splits)
  from cross_spectrum_rect [OF A B sm] obtain S where
    S: "cross_spectrum smooth (Arr2 Nt A) (Arr2 Nt B) method = Inr (Arr2 Nt S)" "rect r Nt S"
    by auto
  have "1 \<le> Nfft" using le Nt1 by linarith
  then have C: "np_ifft_real (Arr2 Nt S) Nfft 1 =
      Inr (Arr2 Nfft (map (\<lambda>row. map Re (idft (resize Nfft row))) S))"
    by (rule np_ifft_real_rows)
  have "list_all (\<lambda>i. i < recentre_width Nfft Nt) ind"
    using lag_indices_bound [of Nt "np_round maxlag"] recentre_width_ge [OF le]
    unfolding ind by (auto simp: list_all_iff)
  then have "np_take_cols (recentre_width Nfft Nt)
        (map (\<lambda>row. recentre row Nt) (map (\<lambda>row. map Re (idft (resize Nfft row))) S)) ind =
      Inr (Arr2 (length ind)
            (map (\<lambda>row. map (\<lambda>i. recentre (map Re (idft (resize Nfft row))) Nt ! i) ind) S))"
    by (simp add: np_take_cols_def o_def)
  moreover
  have eq: "(case Nfft_arg of None \<Rightarrow> next_fast_len (shape_axis (Arr2 Nt A)) | Some n \<Rightarrow> n) = Nfft"
    by (simp add: Nfft split: option.splits)
  have "correlate smooth (Arr2 Nt A) (Arr2 Nt B) maxlag Nfft_arg method =
      np_take_cols (recentre_width Nfft Nt)
        (map (\<lambda>row. recentre row Nt) (map (\<lambda>row. map Re (idft (resize Nfft row))) S)) ind"
    unfolding correlate_def Let_def eq by (simp add: S(1) C ind del: map_map One_nat_def)
  ultimately have "correlate smooth (Arr2 Nt A) (Arr2 Nt B) maxlag Nfft_arg method =
      Inr (Arr2 (length ind)
            (map (\<lambda>row. map (\<lambda>i. recentre (map Re (idft (resize Nfft row))) Nt ! i) ind) S))"
    by simp
  with S show ?thesis by blast
qed

lemma correlate_rank_one_rows:
  assumes xs: "length xs = Nt" and ys: "length ys = Nt"
    and m: "method \<noteq> ''deconv''" "method \<noteq> ''coherence''"
    and n: "Nfft_arg = None \<or> (\<exists>n. Nfft_arg = Some n \<and> Nt \<le> n)" and Nt1: "1 \<le> Nt"
    and Nfft: "Nfft = (case Nfft_arg of None \<Rightarrow> next_fast_len Nt | Some n \<Rightarrow> n)"
    and ind: "ind = lag_indices Nt (np_round maxlag)"
  shows "correlate smooth (Arr1 xs) (Arr1 ys) maxlag Nfft_arg method =
           Inr (Arr1 (map (\<lambda>i. recentre
                  (map Re (idft (resize Nfft (map2 (\<lambda>a b. a * cnj b) xs ys)))) Nt ! i) ind))"
proof -
  let ?c = "map Re (idft (resize Nfft (map2 (\<lambda>a b. a * cnj b) xs ys)))"
  have le: "Nt \<le> Nfft" using n next_fast_len_ge [of Nt] unfolding Nfft by (auto split: option.splits)
  have S: "cross_spectrum smooth (Arr1 xs) (Arr1 ys) method =
      Inr (Arr1 (map2 (\<lambda>a b. a * cnj b) xs ys))"
    using xs ys m by (intro cross_spectrum_rank_one) simp_all
  have "1 \<le> Nfft" using le Nt1 by linarith
  then have C: "np_ifft_real (Arr1 (map2 (\<lambda>a b. a * cnj b) xs ys)) Nfft 0 = Inr (Arr1 ?c)"
    by (rule np_ifft_real_rank_one)
  have "length (recentre ?c Nt) = recentre_width Nfft Nt"
    by (simp add: length_recentre length_idft length_resize)
  then have "list_all (\<lambda>i. i < length (recentre ?c Nt)) ind"
    using lag_indices_bound [of Nt "np_round maxlag"] recentre_width_ge [OF le]
    unfolding ind by (auto simp: list_all_iff)
  then have "np_take (recentre ?c Nt) ind = Inr (map (\<lambda>i. recentre ?c Nt ! i) ind)"
    by (simp add: np_take_def)
  moreover
  have eq: "(case Nfft_arg of None \<Rightarrow> next_fast_len (shape_axis (Arr1 xs)) | Some n \<Rightarrow> n) = Nfft"
    by (simp add: Nfft xs split: option.splits)
  have "correlate smooth (Arr1 xs) (Arr1 ys) maxlag Nfft_arg method =
      map_sum id Arr1 (np_take (recentre ?c Nt) ind)"
    unfolding correlate_def Let_def eq by (simp add: S C ind xs)
  ultimately show ?thesis by simp
qed

lemma length_moving_average: "length (moving_average hw xs) = length xs"
  by (simp add: moving_average_def)

lemma boxcar_keeps_shape: "keeps_shape boxcar_smooth r c"
  by (auto simp: keeps_shape_def boxcar_smooth_def rect_def list_all_iff length_moving_average)

lemma boxcar_keeps_rank1: "keeps_rank1 boxcar_smooth"
  by (simp add: keeps_rank1_def boxcar_smooth_def)

lemma np_round_three_fifths: "np_round (3 / 5) = 1"
  by (simp add: np_round_def)

lemma cos_three_halves: "cos (pi * 3 / 2) = 0"
proof -
  have "pi * 3 / 2 = 3 / 2 * pi" by simp
  then show ?thesis by (simp only: cos_3over2_pi)
qed

lemma idft_second_bin: "map Re (idft [0, 1, 0, 0]) = [1 / 4, 0, - 1 / 4, 0]"
  by (simp add: idft_def upt4 Let_def cos_three_halves)

lemma length_spec_centred_lags: "length (spec_centred_lags M c) = 2 * M + 1"
  by (simp add: spec_centred_lags_def)

lemma spec_centred_lags_middle: "spec_centred_lags M c ! M = c ! 0"
proof -
  have "map (\<lambda>j. spec_lag_sample c (int j - int M)) [0..<2 * M + 1] ! M =
      spec_lag_sample c (int M - int M)"
    using nth_map_upt [of M "2 * M + 1" 0 "\<lambda>j. spec_lag_sample c (int j - int M)"] by simp
  then show ?thesis by (simp add: spec_centred_lags_def spec_lag_sample_def)
qed

lemma spec_centred_lags_one: "spec_centred_lags (Suc 0) [a, b, c, d] = [d, a, b]"
  by (simp add: spec_centred_lags_def spec_lag_sample_def upt3)

text \<open>
  C2, as the claim states it, fails: the lag is rounded to the nearest integer
  (\<^verbatim>\<open>np.round\<close>), not cut to its floor. For one row of four bins and a requested lag of
  0.6 samples the output row has 3 samples, where \<open>2 * \<lfloor>0.6\<rfloor> + 1 = 1\<close>.
\<close>

theorem correlate_row_length_counterexample:
  "map_sum id shape
     (correlate boxcar_smooth (Arr2 4 [[1, 1, 1, 1]]) (Arr2 4 [[1, 1, 1, 1]]) (3 / 5) None
        ''cross_correlation'') = Inr [1, 3] \<and>
   2 * nat \<lfloor>3 / 5 :: real\<rfloor> + 1 = 1"
proof
  have "length (lag_indices 4 (np_round (3 / 5))) = 3"
    using lag_indices_length(1) [of "np_round (3 / 5)" 4] by (simp add: np_round_three_fifths)
  moreover
  have "\<exists>S. cross_spectrum boxcar_smooth (Arr2 4 [[1, 1, 1, 1]]) (Arr2 4 [[1, 1, 1, 1]])
               ''cross_correlation'' = Inr (Arr2 4 S) \<and>
             rect 1 4 S \<and>
             correlate boxcar_smooth (Arr2 4 [[1, 1, 1, 1]]) (Arr2 4 [[1, 1, 1, 1]]) (3 / 5) None
               ''cross_correlation'' =
               Inr (Arr2 (length (lag_indices 4 (np_round (3 / 5))))
                     (map (\<lambda>row. map (\<lambda>i. recentre (map Re (idft (resize (next_fast_len 4) row))) 4 ! i)
                                  (lag_indices 4 (np_round (3 / 5))))
                        S))"
    by (rule correlate_rows) (simp_all add: rect_def)
  ultimately show "map_sum id shape
     (correlate boxcar_smooth (Arr2 4 [[1, 1, 1, 1]]) (Arr2 4 [[1, 1, 1, 1]]) (3 / 5) None
        ''cross_correlation'') = Inr [1, 3]"
    by (auto simp: rect_def)
  show "2 * nat \<lfloor>3 / 5 :: real\<rfloor> + 1 = 1" by simp
qed

text \<open>
  C2, amended. Take two spectra of the same shape, of rank two with \<open>r\<close> rows of \<open>Nt\<close>
  bins (\<open>r = 0\<close> included) or of rank one with \<open>Nt\<close> bins; a transform length \<open>Nfft\<close> of at
  least \<open>Nt\<close> (the default, \<^verbatim>\<open>next_fast_len(Nt)\<close>, is one); and a requested lag whose
  rounding \<open>M\<close> (to the nearest integer, a tie to the even one) satisfies
  \<open>0 \<le> M \<le> Nt div 2 - 1\<close>. With rank two, and for the methods \<^verbatim>\<open>deconv\<close> and \<^verbatim>\<open>coherence\<close> a
  smoother that keeps the shape, \<open>correlate\<close> returns \<open>r\<close> rows of exactly \<open>2 * M + 1\<close>
  samples, centred on zero lag: of the real inverse transform of each row of the cross
  spectrum, the lags \<open>-M, \<dots>, M\<close> in this order, lag zero in the middle. With rank one and
  a method other than these two (which end in an axis error there) it returns the same
  \<open>2 * M + 1\<close> samples of the inverse transform of \<^verbatim>\<open>fft1 * conj(fft2)\<close>.
\<close>

theorem correlate_row_length:
  assumes n: "Nfft_arg = None \<or> (\<exists>n. Nfft_arg = Some n \<and> Nt \<le> n)"
    and Nfft: "Nfft = (case Nfft_arg of None \<Rightarrow> next_fast_len Nt | Some n \<Rightarrow> n)"
    and M: "M = nat (np_round maxlag)"
    and M0: "0 \<le> np_round maxlag" and M1: "np_round maxlag \<le> int (Nt div 2) - 1"
  shows "(rect r Nt A \<and> rect r Nt B \<and>
          (method = ''deconv'' \<or> method = ''coherence'' \<longrightarrow> keeps_shape smooth r Nt) \<longrightarrow>
            map_sum id shape (correlate smooth (Arr2 Nt A) (Arr2 Nt B) maxlag Nfft_arg method) =
              Inr [r, 2 * M + 1] \<and>
            (\<exists>S. cross_spectrum smooth (Arr2 Nt A) (Arr2 Nt B) method = Inr (Arr2 Nt S) \<and>
                 rect r Nt S \<and>
                 correlate smooth (Arr2 Nt A) (Arr2 Nt B) maxlag Nfft_arg method =
                   Inr (Arr2 (2 * M + 1)
                         (map (\<lambda>row. spec_centred_lags M (map Re (idft (resize Nfft row)))) S)))) \<and>
         (length xs = Nt \<and> length ys = Nt \<and> method \<noteq> ''deconv'' \<and> method \<noteq> ''coherence'' \<longrightarrow>
            correlate smooth (Arr1 xs) (Arr1 ys) maxlag Nfft_arg method =
              Inr (Arr1 (spec_centred_lags M
                     (map Re (idft (resize Nfft (map2 (\<lambda>a b. a * cnj b) xs ys)))))))"
proof (intro conjI impI)
  have Nt1: "1 \<le> Nt" using M0 M1 by linarith
  have le: "Nt \<le> Nfft"
    using n next_fast_len_ge [of Nt] unfolding Nfft by (auto split: option.splits)
  have len: "length (lag_indices Nt (np_round maxlag)) = 2 * M + 1"
    unfolding M by (rule lag_indices_length(1) [OF M0 M1])
  have lags: "map (\<lambda>i. recentre (map Re (idft (resize Nfft row))) Nt ! i)
                (lag_indices Nt (np_round maxlag)) =
              spec_centred_lags M (map Re (idft (resize Nfft row)))" for row
    unfolding M using le by (intro lag_indices_centred [OF M0 M1]) (simp add: length_idft length_resize)
  {
    assume a: "rect r Nt A \<and> rect r Nt B \<and>
      (method = ''deconv'' \<or> method = ''coherence'' \<longrightarrow> keeps_shape smooth r Nt)"
    then have A: "rect r Nt A" and B: "rect r Nt B"
      and sm: "method = ''deconv'' \<or> method = ''coherence'' \<Longrightarrow> keeps_shape smooth r Nt"
      by simp_all
    from correlate_rows [OF A B sm n Nt1 Nfft refl] obtain S where
      S: "cross_spectrum smooth (Arr2 Nt A) (Arr2 Nt B) method = Inr (Arr2 Nt S)" "rect r Nt S"
         "correlate smooth (Arr2 Nt A) (Arr2 Nt B) maxlag Nfft_arg method =
            Inr (Arr2 (length (lag_indices Nt (np_round maxlag)))
                  (map (\<lambda>row. map (\<lambda>i. recentre (map Re (idft (resize Nfft row))) Nt ! i)
                                 (lag_indices Nt (np_round maxlag))) S))"
      by blast
    have c: "correlate smooth (Arr2 Nt A) (Arr2 Nt B) maxlag Nfft_arg method =
        Inr (Arr2 (2 * M + 1)
              (map (\<lambda>row. spec_centred_lags M (map Re (idft (resize Nfft row)))) S))"
      unfolding S(3) len lags ..
    with S(2) show "map_sum id shape
        (correlate smooth (Arr2 Nt A) (Arr2 Nt B) maxlag Nfft_arg method) = Inr [r, 2 * M + 1]"
      by (simp add: rect_def)
    from S(1) S(2) c show "\<exists>S. cross_spectrum smooth (Arr2 Nt A) (Arr2 Nt B) method =
          Inr (Arr2 Nt S) \<and> rect r Nt S \<and>
        correlate smooth (Arr2 Nt A) (Arr2 Nt B) maxlag Nfft_arg method =
          Inr (Arr2 (2 * M + 1)
                (map (\<lambda>row. spec_centred_lags M (map Re (idft (resize Nfft row)))) S))"
      by blast
  }
  {
    assume a: "length xs = Nt \<and> length ys = Nt \<and> method \<noteq> ''deconv'' \<and> method \<noteq> ''coherence''"
    then have xs: "length xs = Nt" and ys: "length ys = Nt"
      and m: "method \<noteq> ''deconv''" "method \<noteq> ''coherence''" by simp_all
    show "correlate smooth (Arr1 xs) (Arr1 ys) maxlag Nfft_arg method =
        Inr (Arr1 (spec_centred_lags M
               (map Re (idft (resize Nfft (map2 (\<lambda>a b. a * cnj b) xs ys))))))"
      unfolding correlate_rank_one_rows [OF xs ys m n Nt1 Nfft refl] lags ..
  }
qed

theorem correlate_row_length_witness:
  "np_round (3 / 5) = 1 \<and> next_fast_len 4 = 4 \<and>
   rect 1 4 [[1, 2, 3, 4 :: complex]] \<and> rect 1 4 [[4, 3, 2, 1 :: complex]] \<and>
   keeps_shape boxcar_smooth 1 4 \<and>
   map_sum id shape
     (correlate boxcar_smooth (Arr2 4 [[1, 2, 3, 4]]) (Arr2 4 [[4, 3, 2, 1]]) (3 / 5) None
        ''deconv'') = Inr [1, 3] \<and>
   correlate boxcar_smooth (Arr2 4 [[0, 1, 0, 0]]) (Arr2 4 [[1, 1, 1, 1]]) (3 / 5) None
     ''cross_correlation'' = Inr (Arr2 3 [[0, 1 / 4, 0]]) \<and>
   correlate boxcar_smooth (Arr2 4 []) (Arr2 4 []) (3 / 5) None ''deconv'' = Inr (Arr2 3 []) \<and>
   correlate boxcar_smooth (Arr1 [0, 1, 0, 0]) (Arr1 [1, 1, 1, 1]) (3 / 5) None
     ''cross_correlation'' = Inr (Arr1 [0, 1 / 4, 0])"
proof -
  have nfl: "next_fast_len 4 = 4" by (simp add: next_fast_len_def)
  have p1: "(None :: nat option) = None \<or> (\<exists>n. (None :: nat option) = Some n \<and> (4 :: nat) \<le> n)"
    by simp
  have p2: "(4 :: nat) = (case (None :: nat option) of None \<Rightarrow> next_fast_len 4 | Some n \<Rightarrow> n)"
    by (simp add: nfl)
  have p3: "(1 :: nat) = nat (np_round (3 / 5))" by (simp add: np_round_three_fifths)
  have p4: "0 \<le> np_round (3 / 5)" by (simp add: np_round_three_fifths)
  have p5: "np_round (3 / 5) \<le> int ((4 :: nat) div 2) - 1" by (simp add: np_round_three_fifths)
  note T = correlate_row_length [OF p1 p2 p3 p4 p5]
  have A: "rect 1 4 [[1, 2, 3, 4 :: complex]]" and B: "rect 1 4 [[4, 3, 2, 1 :: complex]]"
    by (simp_all add: rect_def)
  have deconv: "map_sum id shape
     (correlate boxcar_smooth (Arr2 4 [[1, 2, 3, 4]]) (Arr2 4 [[4, 3, 2, 1]]) (3 / 5) None
        ''deconv'') = Inr [1, 3]"
    using T [of 1 "[[1, 2, 3, 4]]" "[[4, 3, 2, 1]]" "''deconv''" boxcar_smooth] A B
    by (simp add: boxcar_keeps_shape)
  have "\<exists>S. cross_spectrum boxcar_smooth (Arr2 4 [[0, 1, 0, 0]]) (Arr2 4 [[1, 1, 1, 1]])
               ''cross_correlation'' = Inr (Arr2 4 S) \<and>
             correlate boxcar_smooth (Arr2 4 [[0, 1, 0, 0]]) (Arr2 4 [[1, 1, 1, 1]]) (3 / 5) None
               ''cross_correlation'' =
               Inr (Arr2 3 (map (\<lambda>row. spec_centred_lags 1 (map Re (idft (resize 4 row)))) S))"
    using T [of 1 "[[0, 1, 0, 0]]" "[[1, 1, 1, 1]]" "''cross_correlation''" boxcar_smooth]
    by (auto simp: rect_def)
  moreover have "cross_spectrum boxcar_smooth (Arr2 4 [[0, 1, 0, 0]]) (Arr2 4 [[1, 1, 1, 1]])
               ''cross_correlation'' = Inr (Arr2 4 [[0, 1, 0, 0]])"
    by (simp add: cross_spectrum_def bc_matrix_def bc_dim_def bc_rows_def bc_def)
  ultimately have matrix: "correlate boxcar_smooth (Arr2 4 [[0, 1, 0, 0]]) (Arr2 4 [[1, 1, 1, 1]])
      (3 / 5) None ''cross_correlation'' = Inr (Arr2 3 [[0, 1 / 4, 0]])"
    by (auto simp: resize_def idft_second_bin spec_centred_lags_one)
  have "\<exists>S. rect 0 4 S \<and>
             correlate boxcar_smooth (Arr2 4 []) (Arr2 4 []) (3 / 5) None ''deconv'' =
               Inr (Arr2 3 (map (\<lambda>row. spec_centred_lags 1 (map Re (idft (resize 4 row)))) S))"
    using T [of 0 "[]" "[]" "''deconv''" boxcar_smooth]
    by (auto simp: rect_def boxcar_keeps_shape)
  then have rowless: "correlate boxcar_smooth (Arr2 4 []) (Arr2 4 []) (3 / 5) None ''deconv'' =
      Inr (Arr2 3 [])"
    by (auto simp: rect_def)
  have vector: "correlate boxcar_smooth (Arr1 [0, 1, 0, 0]) (Arr1 [1, 1, 1, 1]) (3 / 5) None
      ''cross_correlation'' = Inr (Arr1 [0, 1 / 4, 0])"
    using T [of _ _ _ "''cross_correlation''" _ "[0, 1, 0, 0]" "[1, 1, 1, 1]"]
    by (simp add: resize_def idft_second_bin spec_centred_lags_one)
  from nfl A B deconv matrix rowless vector show ?thesis
    by (simp add: np_round_three_fifths boxcar_keeps_shape)
qed

text \<open>
  Outside that range of the lag the rows are shorter than \<open>2 * M + 1\<close>: the mask runs over
  the \<open>Nt - 1\<close> lags of \<^verbatim>\<open>np.arange(-Nt//2 + 1, Nt//2)\<close>, so a lag of \<open>Nt div 2\<close> samples or
  more returns all of these and no more, and a negative lag returns none.
\<close>

lemma lag_indices_negative:
  assumes "M < 0"
  shows "lag_indices Nt M = []"
proof -
  have "\<not> \<bar>x\<bar> \<le> M" for x :: int using assms by linarith
  then show ?thesis by (simp add: lag_indices_def Let_def)
qed

lemma correlate_long_lag:
  assumes "rect r Nt A" and "rect r Nt B"
    and "method = ''deconv'' \<or> method = ''coherence'' \<Longrightarrow> keeps_shape smooth r Nt"
    and "Nfft_arg = None \<or> (\<exists>n. Nfft_arg = Some n \<and> Nt \<le> n)" and "1 \<le> Nt"
  shows "int (Nt div 2) \<le> np_round maxlag \<Longrightarrow>
           map_sum id shape (correlate smooth (Arr2 Nt A) (Arr2 Nt B) maxlag Nfft_arg method) =
             Inr [r, Nt - 1]"
    and "np_round maxlag < 0 \<Longrightarrow>
           map_sum id shape (correlate smooth (Arr2 Nt A) (Arr2 Nt B) maxlag Nfft_arg method) =
             Inr [r, 0]"
proof -
  from correlate_rows [of r Nt A B "method" smooth Nfft_arg _ _ maxlag, OF assms refl refl] obtain S where
    r: "rect r Nt S" and
    c: "correlate smooth (Arr2 Nt A) (Arr2 Nt B) maxlag Nfft_arg method =
          Inr (Arr2 (length (lag_indices Nt (np_round maxlag)))
                (map (\<lambda>row. map (\<lambda>i. recentre (map Re (idft (resize
                        (case Nfft_arg of None \<Rightarrow> next_fast_len Nt | Some n \<Rightarrow> n) row))) Nt ! i)
                      (lag_indices Nt (np_round maxlag))) S))"
    by blast
  have S: "map_sum id shape (correlate smooth (Arr2 Nt A) (Arr2 Nt B) maxlag Nfft_arg method) =
      Inr [r, length (lag_indices Nt (np_round maxlag))]"
    unfolding c using r by (simp add: rect_def)
  show "map_sum id shape (correlate smooth (Arr2 Nt A) (Arr2 Nt B) maxlag Nfft_arg method) =
      Inr [r, Nt - 1]" if "int (Nt div 2) \<le> np_round maxlag"
    using S lag_indices_all [OF that] by simp
  show "map_sum id shape (correlate smooth (Arr2 Nt A) (Arr2 Nt B) maxlag Nfft_arg method) =
      Inr [r, 0]" if "np_round maxlag < 0"
    using S lag_indices_negative [OF that] by simp
qed

text \<open>
  The other premises are needed as well. A first spectrum of rank one against a second
  of rank two makes the code transform, recentre and mask along axis 0 of a product of
  rank two, so the lags run down the columns and the rows keep their \<open>Nt\<close> entries; and a
  transform of one point leaves too few samples for the mask.
\<close>

lemma correlate_mixed_rank:
  "map_sum id shape
     (correlate boxcar_smooth (Arr1 [1, 1, 1, 1]) (Arr2 4 [[1, 1, 1, 1], [1, 1, 1, 1]]) (3 / 5) None
        ''cross_correlation'') = Inr [3, 4]"
  apply (simp add: correlate_def cross_spectrum_def bc_matrix_def bc_dim_def bc_rows_def bc_def
      next_fast_len_def np_ifft_real_def Let_def upt4)
  apply (simp add: lag_indices_def np_round_three_fifths recentre_def py_slice_from_def
      py_slice_to_def py_bound_def np_take_def upt3)
  done

lemma correlate_short_transform:
  "correlate boxcar_smooth (Arr2 4 [[1, 1, 1, 1]]) (Arr2 4 [[1, 1, 1, 1]]) (3 / 5) (Some 1)
     ''cross_correlation'' = Inl IndexError"
  apply (simp add: correlate_def cross_spectrum_def bc_matrix_def bc_dim_def bc_rows_def bc_def
      np_ifft_real_def Let_def)
  apply (simp add: lag_indices_def np_round_three_fifths recentre_width_def py_bound_def
      np_take_cols_def upt3)
  done

subsection \<open>Spectra of rank one\<close>

text \<open>
  C10. \<open>correlate\<close> takes a spectrum of rank one, but with the methods \<^verbatim>\<open>deconv\<close> and
  \<^verbatim>\<open>coherence\<close> the regulariser takes a mean over axis 1 of the smoothed magnitude of
  \<open>fft1\<close>, which has no such axis: whenever the product \<^verbatim>\<open>fft1 * conj(fft2)\<close> is defined
  and the smoother returns a rank-one array for a rank-one array, \<open>correlate\<close> ends in
  that axis error exactly for these two methods; with \<^verbatim>\<open>cross_correlation\<close> (any other
  method string) it never does.
\<close>

theorem correlate_rank_one_axis_error:
  assumes "np_binop (*) (Arr1 xs) (map_ndarray cnj fft2) = Inr corr"
    and "keeps_rank1 smooth"
  shows "correlate smooth (Arr1 xs) fft2 maxlag Nfft_arg method = Inl AxisError \<longleftrightarrow>
           method = ''deconv'' \<or> method = ''coherence''"
proof
  assume m: "method = ''deconv'' \<or> method = ''coherence''"
  from assms(2) obtain w where "smooth (Arr1 (map cmod xs)) 20 = Arr1 w"
    by (auto simp: keeps_rank1_def)
  then have "regulariser smooth (Arr1 xs) = Inl AxisError"
    by (simp add: regulariser_def)
  with m assms(1) have "cross_spectrum smooth (Arr1 xs) fft2 method = Inl AxisError"
    by (auto simp: cross_spectrum_def)
  then show "correlate smooth (Arr1 xs) fft2 maxlag Nfft_arg method = Inl AxisError"
    by (simp add: correlate_def Let_def)
next
  assume e: "correlate smooth (Arr1 xs) fft2 maxlag Nfft_arg method = Inl AxisError"
  show "method = ''deconv'' \<or> method = ''coherence''"
  proof (rule ccontr)
    assume "\<not> (method = ''deconv'' \<or> method = ''coherence'')"
    with assms(1) have "cross_spectrum smooth (Arr1 xs) fft2 method = Inr corr"
      by (simp add: cross_spectrum_def)
    with e show False
      by (auto simp: correlate_def Let_def np_ifft_real_def np_take_def
          split: sum.splits ndarray.splits if_splits)
  qed
qed

theorem correlate_rank_one_axis_error_witness:
  "np_binop (*) (Arr1 [1, 1]) (map_ndarray cnj (Arr1 [2, 2])) = Inr (Arr1 [2, 2]) \<and>
   keeps_rank1 boxcar_smooth \<and>
   correlate boxcar_smooth (Arr1 [1, 1]) (Arr1 [2, 2]) 0 None ''deconv'' = Inl AxisError \<and>
   correlate boxcar_smooth (Arr1 [1, 1]) (Arr1 [2, 2]) 0 None ''coherence'' = Inl AxisError \<and>
   correlate boxcar_smooth (Arr1 [1, 1]) (Arr1 [2, 2]) 0 None ''cross_correlation'' \<noteq>
     Inl AxisError"
proof -
  have p: "np_binop (*) (Arr1 [1, 1]) (map_ndarray cnj (Arr1 [2, 2])) = Inr (Arr1 [2, 2])"
    by (simp add: bc_def)
  note iff = correlate_rank_one_axis_error [OF p boxcar_keeps_rank1, of 0 None]
  have "correlate boxcar_smooth (Arr1 [1, 1]) (Arr1 [2, 2]) 0 None ''deconv'' = Inl AxisError"
    using iff [of "''deconv''"] by simp
  moreover
  have "correlate boxcar_smooth (Arr1 [1, 1]) (Arr1 [2, 2]) 0 None ''coherence'' = Inl AxisError"
    using iff [of "''coherence''"] by simp
  moreover
  have "correlate boxcar_smooth (Arr1 [1, 1]) (Arr1 [2, 2]) 0 None ''cross_correlation'' \<noteq>
     Inl AxisError"
    using iff [of "''cross_correlation''"] by simp
  ultimately show ?thesis using p boxcar_keeps_rank1 by simp
qed

end
